theory Spec2Isabelle
  imports Main "HOL-Library.Word"
begin

unbundle bit_operations_syntax

section \<open>The UCS processor of the VSM SDK (src/src/cucs_processor.cpp)\<close>

text \<open>
  The processor keeps a table of server connections (\<open>ucs_connections\<close>) and a table of
  registered devices (\<open>vehicles\<close>). Every handler of the source runs on one processing
  context, so a handler is a function from the processor state to the processor state.
  Calls that leave the processor (stream writes and closes, log lines, device callbacks,
  the transport detector) are appended to a trace of events.

  Conventions of the embedding:
  \<^item> \<open>std::unordered_map\<close> and \<open>std::unordered_set\<close> are association lists and
    lists without duplicates; the order of the list stands for the iteration order of the
    container, which the source relies on when it iterates.
  \<^item> identifiers (\<open>uint32_t\<close> stream, peer, device and message ids) are natural numbers;
    none of the properties below depends on their wrap-around.
  \<^item> time points of \<open>std::chrono::steady_clock\<close> are integers (ticks), durations too.
  \<^item> the protocol-buffer library is outside the repository: \<open>ByteSize\<close> and
    \<open>SerializeToArray\<close> are a parameter \<open>ser\<close>, \<open>ParseFromArray\<close> is a parameter
    \<open>parse\<close>.
  \<^item> the request objects of the processing context (\<open>Request::Complete\<close>) and the
    read operations handed to the streams are not recorded in the trace; an exception
    leaves a handler with the state as it was when it was thrown.
\<close>

subsection \<open>Protocol messages\<close>

datatype Peer_type = PEER_TYPE_SERVER | PEER_TYPE_VSM

datatype Status_code =
  STATUS_OK | STATUS_FAILED | STATUS_INVALID_SESSION_ID | STATUS_IN_PROGRESS | STATUS_OTHER nat

datatype Meta_value = META_VALUE_NA | META_VALUE_OTHER nat

text \<open>A telemetry field: \<open>field_id\<close>, and a value that may carry a meta value.\<close>

record Telemetry_field =
  field_id :: nat
  meta_value :: "Meta_value option"
  field_data :: nat

record Command_availability =
  command_id :: nat
  command_data :: nat

record Register_peer =
  peer_id :: nat
  peer_type :: "Peer_type option"
  version_major :: "nat option"
  version_minor :: "nat option"
  version_build :: "string option"

record Device_status =
  telemetry_fields :: "Telemetry_field list"
  command_availability :: "Command_availability list"

record Device_response =
  code :: Status_code
  progress :: nat
  status :: string

text \<open>
  \<open>Vsm_message\<close>: an optional field of the protocol buffer is an \<open>option\<close>
  (\<open>has_x()\<close> is \<open>x m \<noteq> None\<close>); the payloads of \<open>register_device\<close> and
  \<open>unregister_device\<close> are opaque to the processor, only their presence is read.
\<close>

record Vsm_message =
  device_id :: nat
  message_id :: "nat option"
  response_required :: "bool option"
  register_peer :: "Register_peer option"
  has_register_device :: bool
  has_unregister_device :: bool
  device_status :: "Device_status option"
  device_response :: "Device_response option"

definition empty_message :: Vsm_message where
  "empty_message = \<lparr>device_id = 0, message_id = None, response_required = None,
     register_peer = None, has_register_device = False, has_unregister_device = False,
     device_status = None, device_response = None\<rparr>"

text \<open>\<open>message_id()\<close> of a message without the field is the default 0.\<close>

definition message_id_or_default :: "Vsm_message \<Rightarrow> nat" where
  "message_id_or_default m = (case message_id m of None \<Rightarrow> 0 | Some i \<Rightarrow> i)"

subsection \<open>Connections, devices, processor state\<close>

record Socket_address =
  address_string :: string
  Is_loopback_address :: bool

text \<open>
  Modelled from the spec: the declaration of \<open>Server_context\<close> is not in the header under
  src/ (which declares an older interface). The fields are the ones Read_completed,
  Send_ucs_message, Close_ucs_stream and On_timer read and write; their initial values
  are the ones the spec gives for a connection (section 3 and 4.1): peer id unset, not
  primary, compatible, decoder in its header state.
\<close>

record Server_context =
  stream_id :: nat
  address :: Socket_address
  ucs_id :: "nat option"
  primary :: bool
  is_compatible :: bool
  reading_header :: bool
  message_size :: nat
  shift :: nat
  to_read :: nat
  last_message_time :: int
  pending_registrations :: "(nat \<times> nat) list"
  registered_devices :: "nat list"

definition new_context :: "nat \<Rightarrow> Socket_address \<Rightarrow> int \<Rightarrow> Server_context" where
  "new_context sid addr now = \<lparr>stream_id = sid, address = addr, ucs_id = None,
     primary = False, is_compatible = True, reading_header = True, message_size = 0,
     shift = 0, to_read = 1, last_message_time = now, pending_registrations = [],
     registered_devices = []\<rparr>"

record Vehicle_context =
  registration_message :: Vsm_message
  telemetry_cache :: "(nat \<times> Telemetry_field) list"
  availability_cache :: "(nat \<times> Command_availability) list"

record Ucs_info =
  info_ucs_id :: nat
  info_address :: Socket_address
  info_primary :: bool
  info_last_message_time :: int

datatype event =
  Log string
  | Stream_close nat
  | Stream_write nat "8 word list"
  | Handle_ucs_info nat "Ucs_info list"
  | Transport_activate bool
  | Device_on_ucs_message nat Vsm_message "(nat \<times> Vsm_message) option"

record Cucs_processor =
  ucs_connections :: "(nat \<times> Server_context) list"
  vehicles :: "(nat \<times> Vehicle_context) list"
  ucs_id_counter :: nat
  keep_alive_timeout :: int
  transport_detector_on_when_diconnected :: bool
  trace :: "event list"

datatype error =
  Internal_error_exception | Invalid_param_exception | Exception | Undefined_shift

subsection \<open>Frame codec\<close>

text \<open>
  The encoder is the do-while loop of Send_ucs_message: \<open>tmp_len\<close> is the \<open>int\<close>
  returned by \<open>ByteSize()\<close>, never negative.
\<close>

function write_header :: "nat \<Rightarrow> 8 word list" where
  "write_header tmp_len =
     (let byte = (of_nat (tmp_len AND 0x7f) :: 8 word);
          tmp_len' = drop_bit 7 tmp_len
      in if tmp_len' \<noteq> 0 then (byte OR 0x80) # write_header tmp_len' else [byte])"
  by pat_completeness auto
termination
  by (relation "measure id") (auto simp: drop_bit_eq_div Let_def)

definition encode_frame :: "8 word list \<Rightarrow> 8 word list" where
  "encode_frame payload = write_header (length payload) @ payload"

text \<open>
  The decoder's header byte (Read_completed, the branch \<open>connection.reading_header\<close>).
  The shifted operand \<open>byte & 0x7f\<close> is an \<open>int\<close> (32 bits) and \<open>message_size\<close> a
  \<open>size_t\<close> (64 bits). \<open>shift_left_int v s\<close> is the value that
  \<open>message_size |= v << s\<close> combines into \<open>message_size\<close>:
  \<^item> the product, when it fits in an \<open>int\<close>;
  \<^item> when the product needs the sign bit (it is in \<open>[2^31, 2^32)\<close>), the \<open>int\<close> is
    negative and its conversion to \<open>size_t\<close> extends the sign: the 32 upper bits are set;
  \<^item> \<open>None\<close> when the shift count reaches the width of \<open>int\<close> or the product does not
    fit in 32 bits: the shift is undefined there and the model does not follow the
    source further (\<open>Header_undefined\<close>).
\<close>

definition shift_left_int :: "nat \<Rightarrow> nat \<Rightarrow> nat option" where
  "shift_left_int v s =
     (if s < 32 \<and> v * 2 ^ s < 2 ^ 32
      then Some (if v * 2 ^ s < 2 ^ 31 then v * 2 ^ s else v * 2 ^ s + (2 ^ 64 - 2 ^ 32))
      else None)"

datatype header_step = Header_next Server_context | Header_too_long | Header_undefined

definition read_header_byte :: "nat \<Rightarrow> Server_context \<Rightarrow> 8 word \<Rightarrow> header_step" where
  "read_header_byte PROTO_MAX_MESSAGE_LEN connection b =
     (let byte = unat b in
      case shift_left_int (byte AND 0x7f) (shift connection) of
        None \<Rightarrow> Header_undefined
      | Some v \<Rightarrow>
          let c1 = connection\<lparr>message_size := message_size connection OR v\<rparr> in
          if message_size c1 > PROTO_MAX_MESSAGE_LEN then Header_too_long
          else if byte AND 0x80 \<noteq> 0 then Header_next (c1\<lparr>shift := shift c1 + 7\<rparr>)
          else
            let c2 = c1\<lparr>shift := 0\<rparr> in
            if message_size c2 \<noteq> 0
            then Header_next (c2\<lparr>to_read := message_size c2, reading_header := False\<rparr>)
            else Header_next (c2\<lparr>to_read := 1\<rparr>))"

text \<open>After a message body: wait for the next message header.\<close>

definition next_header :: "Server_context \<Rightarrow> Server_context" where
  "next_header connection =
     connection\<lparr>to_read := 1, reading_header := True, message_size := 0\<rparr>"

text \<open>
  The decoder run on the bytes of a stream. Schedule_next_read asks the stream for
  exactly \<open>to_read\<close> bytes (minimum and maximum of the read are both \<open>to_read\<close>), so
  each call of Read_completed gets the next \<open>to_read\<close> bytes, however the transport
  delivers them. A body buffer is the frame handed to \<open>ParseFromArray\<close>;
  \<open>read_frames\<close> collects these frames and follows the decoder fields of the
  connection only; the message handling of Read_completed does not touch them
  (\<open>handle_message_framing\<close> and \<open>Read_completed_body\<close> below).
\<close>

datatype frames_result =
  Reading "8 word list list" Server_context "8 word list"
  | Frames_closed "8 word list list"
  | Frames_undefined "8 word list list"
  | Frames_internal_error "8 word list list"

function read_frames ::
  "nat \<Rightarrow> Server_context \<Rightarrow> 8 word list \<Rightarrow> 8 word list list \<Rightarrow> frames_result" where
  "read_frames PROTO_MAX_MESSAGE_LEN connection input frames =
     (if to_read connection = 0 \<or> length input < to_read connection
      then Reading frames connection input
      else
        let buffer = take (to_read connection) input;
            rest = drop (to_read connection) input
        in if reading_header connection then
             (if length buffer \<noteq> 1 then Frames_internal_error frames
              else case read_header_byte PROTO_MAX_MESSAGE_LEN connection (hd buffer) of
                     Header_undefined \<Rightarrow> Frames_undefined frames
                   | Header_too_long \<Rightarrow> Frames_closed frames
                   | Header_next c \<Rightarrow> read_frames PROTO_MAX_MESSAGE_LEN c rest frames)
           else read_frames PROTO_MAX_MESSAGE_LEN (next_header connection) rest
                  (frames @ [buffer]))"
  by pat_completeness auto
termination
  by (relation "measure (\<lambda>(m, c, input, frames). length input)") auto


subsection \<open>Tables\<close>

text \<open>
  \<open>find\<close>, element update through a reference, \<open>erase\<close> and \<open>insert\<close> of the
  standard containers. \<open>insert\<close> leaves an existing key alone; where a new element
  lands in the iteration order is up to the container, the model puts it last.
\<close>

definition update_entry :: "nat \<Rightarrow> ('a \<Rightarrow> 'a) \<Rightarrow> (nat \<times> 'a) list \<Rightarrow> (nat \<times> 'a) list" where
  "update_entry key f table = map (\<lambda>(k, v). if k = key then (k, f v) else (k, v)) table"

definition erase_key :: "nat \<Rightarrow> (nat \<times> 'a) list \<Rightarrow> (nat \<times> 'a) list" where
  "erase_key key table = filter (\<lambda>(k, v). k \<noteq> key) table"

definition insert_entry :: "nat \<Rightarrow> 'a \<Rightarrow> (nat \<times> 'a) list \<Rightarrow> (nat \<times> 'a) list" where
  "insert_entry key v table = (if key \<in> fst ` set table then table else table @ [(key, v)])"

definition insert_element :: "nat \<Rightarrow> nat list \<Rightarrow> nat list" where
  "insert_element x xs = (if x \<in> set xs then xs else xs @ [x])"

definition find_connection :: "Cucs_processor \<Rightarrow> nat \<Rightarrow> Server_context option" where
  "find_connection s sid = map_of (ucs_connections s) sid"

definition update_connection ::
  "nat \<Rightarrow> (Server_context \<Rightarrow> Server_context) \<Rightarrow> Cucs_processor \<Rightarrow> Cucs_processor" where
  "update_connection sid f s = s\<lparr>ucs_connections := update_entry sid f (ucs_connections s)\<rparr>"

definition emit :: "event \<Rightarrow> Cucs_processor \<Rightarrow> Cucs_processor" where
  "emit e s = s\<lparr>trace := trace s @ [e]\<rparr>"

text \<open>
  Modelled from the spec: \<open>Get_next_id\<close> is declared outside src/. The constructor
  starts \<open>ucs_id_counter\<close> at 1; the spec asks for fresh, increasing ids (section 3 and
  4.3), so the model hands out the counter and increments it.
\<close>

definition Get_next_id :: "Cucs_processor \<Rightarrow> nat \<times> Cucs_processor" where
  "Get_next_id s = (ucs_id_counter s, s\<lparr>ucs_id_counter := ucs_id_counter s + 1\<rparr>)"

subsection \<open>Send_ucs_message\<close>

text \<open>
  The range-for over \<open>pending_registrations\<close> in Send_ucs_message: the first entry that
  maps to the device is erased by its key, then the loop breaks.
\<close>

definition erase_pending_of_device :: "nat \<Rightarrow> (nat \<times> nat) list \<Rightarrow> (nat \<times> nat) list" where
  "erase_pending_of_device dev pending =
     (case find (\<lambda>m. snd m = dev) pending of
        None \<Rightarrow> pending
      | Some m \<Rightarrow> erase_key (fst m) pending)"

text \<open>
  The tail of Send_ucs_message: a message that requires a response and has no
  \<open>message_id\<close> gets one; the frame (header, payload) is written to the stream.
\<close>

definition write_message ::
  "(Vsm_message \<Rightarrow> 8 word list) \<Rightarrow> nat \<Rightarrow> Vsm_message \<Rightarrow> Cucs_processor \<Rightarrow>
     Vsm_message \<times> Cucs_processor" where
  "write_message ser sid message s =
     (let (m, s1) =
        (if message_id message = None \<and> response_required message = Some True
         then (let (i, s') = Get_next_id s in (message\<lparr>message_id := Some i\<rparr>, s'))
         else (message, s))
      in (m, emit (Stream_write sid (encode_frame (ser m))) s1))"

text \<open>
  The message is passed by reference: the caller sees the fields Send_ucs_message sets,
  so the model returns the message with the state.
\<close>

definition Send_ucs_message ::
  "(Vsm_message \<Rightarrow> 8 word list) \<Rightarrow> nat \<Rightarrow> Vsm_message \<Rightarrow> Cucs_processor \<Rightarrow>
     Vsm_message \<times> Cucs_processor" where
  "Send_ucs_message ser sid message s =
     (case find_connection s sid of
        None \<Rightarrow> (message, s)
      | Some ctx \<Rightarrow>
          if ucs_id ctx = None \<and> register_peer message = None
          then (message, emit (Log ''Must register peer before sending anything else'') s)
          else
            let m1 = (if ucs_id ctx = None then message\<lparr>device_id := 0\<rparr> else message) in
            if \<not> is_compatible ctx then (m1, s)
            else if has_register_device m1 then
              (let (i, s1) = Get_next_id s;
                   m2 = m1\<lparr>response_required := Some True, message_id := Some i\<rparr>;
                   s2 = update_connection sid
                          (\<lambda>c. c\<lparr>pending_registrations :=
                                   insert_entry i (device_id m2) (pending_registrations c)\<rparr>) s1
               in write_message ser sid m2 s2)
            else if device_id m1 \<noteq> 0 then
              (if device_id m1 \<notin> set (registered_devices ctx) then (m1, s)
               else if has_unregister_device m1 then
                 write_message ser sid m1
                   (update_connection sid
                      (\<lambda>c. c\<lparr>registered_devices :=
                               removeAll (device_id m1) (registered_devices c),
                             pending_registrations :=
                               erase_pending_of_device (device_id m1) (pending_registrations c)\<rparr>)
                      s)
               else write_message ser sid m1 s)
            else write_message ser sid m1 s)"

definition Send_ucs_message_ptr ::
  "(Vsm_message \<Rightarrow> 8 word list) \<Rightarrow> nat \<Rightarrow> Vsm_message \<Rightarrow> Cucs_processor \<Rightarrow> Cucs_processor" where
  "Send_ucs_message_ptr ser sid message s = snd (Send_ucs_message ser sid message s)"

text \<open>Broadcast_message_to_ucs: the same message object goes to every primary connection.\<close>

fun Broadcast_loop ::
  "(Vsm_message \<Rightarrow> 8 word list) \<Rightarrow> nat list \<Rightarrow> Vsm_message \<Rightarrow> Cucs_processor \<Rightarrow>
     Vsm_message \<times> Cucs_processor" where
  "Broadcast_loop ser [] message s = (message, s)"
| "Broadcast_loop ser (k # ks) message s =
     (case find_connection s k of
        None \<Rightarrow> Broadcast_loop ser ks message s
      | Some c \<Rightarrow>
          if primary c
          then (let (m, s1) = Send_ucs_message ser k message s in Broadcast_loop ser ks m s1)
          else Broadcast_loop ser ks message s)"

definition Broadcast_message_to_ucs ::
  "(Vsm_message \<Rightarrow> 8 word list) \<Rightarrow> Vsm_message \<Rightarrow> Cucs_processor \<Rightarrow>
     Vsm_message \<times> Cucs_processor" where
  "Broadcast_message_to_ucs ser message s =
     Broadcast_loop ser (map fst (ucs_connections s)) message s"

fun Send_vehicle_registrations_loop ::
  "(Vsm_message \<Rightarrow> 8 word list) \<Rightarrow> nat \<Rightarrow> nat list \<Rightarrow> Cucs_processor \<Rightarrow> Cucs_processor" where
  "Send_vehicle_registrations_loop ser sid [] s = s"
| "Send_vehicle_registrations_loop ser sid (d # ds) s =
     (case map_of (vehicles s) d of
        None \<Rightarrow> Send_vehicle_registrations_loop ser sid ds s
      | Some v \<Rightarrow>
          let (m, s1) = Send_ucs_message ser sid (registration_message v) s;
              s2 = s1\<lparr>vehicles :=
                     update_entry d (\<lambda>v. v\<lparr>registration_message := m\<rparr>) (vehicles s1)\<rparr>
          in Send_vehicle_registrations_loop ser sid ds s2)"

definition Send_vehicle_registrations ::
  "(Vsm_message \<Rightarrow> 8 word list) \<Rightarrow> nat \<Rightarrow> Cucs_processor \<Rightarrow> Cucs_processor" where
  "Send_vehicle_registrations ser sid s =
     Send_vehicle_registrations_loop ser sid (map fst (vehicles s)) s"

subsection \<open>Close_ucs_stream and the device notification\<close>

text \<open>
  Notify_device_about_ucs_connections. A connection that has a registered device has its
  \<open>ucs_id\<close> set (devices are registered by responses, which are only handled for a
  known peer); the source dereferences the optional without a check.
\<close>

definition ucs_data :: "nat \<Rightarrow> (nat \<times> Server_context) list \<Rightarrow> Ucs_info list" where
  "ucs_data dev_id conns =
     map (\<lambda>(k, u). \<lparr>info_ucs_id = the (ucs_id u), info_address = address u,
                      info_primary = primary u,
                      info_last_message_time = last_message_time u\<rparr>)
       (filter (\<lambda>(k, u). dev_id \<in> set (registered_devices u)) conns)"

definition Notify_device_about_ucs_connections :: "nat \<Rightarrow> Cucs_processor \<Rightarrow> Cucs_processor" where
  "Notify_device_about_ucs_connections dev_id s =
     (case map_of (vehicles s) dev_id of
        None \<Rightarrow> s
      | Some dev \<Rightarrow> emit (Handle_ucs_info dev_id (ucs_data dev_id (ucs_connections s))) s)"

text \<open>The two passes of Close_ucs_stream that choose a new primary connection.\<close>

definition is_loopback_sibling :: "nat \<Rightarrow> Server_context \<Rightarrow> bool" where
  "is_loopback_sibling p ucs \<longleftrightarrow> ucs_id ucs = Some p \<and> Is_loopback_address (address ucs)"

definition promote_loopback ::
  "nat \<Rightarrow> (nat \<times> Server_context) list \<Rightarrow> (nat \<times> Server_context) list" where
  "promote_loopback p conns =
     map (\<lambda>(k, ucs). if is_loopback_sibling p ucs then (k, ucs\<lparr>primary := True\<rparr>) else (k, ucs))
       conns"

fun promote_first ::
  "nat \<Rightarrow> (nat \<times> Server_context) list \<Rightarrow> (nat \<times> Server_context) list" where
  "promote_first p [] = []"
| "promote_first p ((k, ucs) # conns) =
     (if ucs_id ucs = Some p then (k, ucs\<lparr>primary := True\<rparr>) # conns
      else (k, ucs) # promote_first p conns)"

definition choose_new_primary :: "nat \<Rightarrow> Cucs_processor \<Rightarrow> Cucs_processor" where
  "choose_new_primary p s =
     (let conns = ucs_connections s;
          loopback_found = (\<exists>(k, ucs) \<in> set conns. is_loopback_sibling p ucs)
      in if loopback_found
         then s\<lparr>ucs_connections := promote_loopback p conns,
                trace := trace s @
                  replicate (length (filter (\<lambda>(k, ucs). is_loopback_sibling p ucs) conns))
                    (Log ''New primary connection for UCS'')\<rparr>
         else if \<exists>(k, ucs) \<in> set conns. ucs_id ucs = Some p
         then s\<lparr>ucs_connections := promote_first p conns,
                trace := trace s @ [Log ''New primary connection for UCS'']\<rparr>
         else s)"

definition Close_ucs_stream :: "nat \<Rightarrow> Cucs_processor \<Rightarrow> Cucs_processor" where
  "Close_ucs_stream sid s =
     (case find_connection s sid of
        None \<Rightarrow> s
      | Some c \<Rightarrow>
          let s1 = (if ucs_id c \<noteq> None then emit (Log ''Closing UCS connection'') s else s);
              s2 = emit (Stream_close sid) s1;
              was_primary = primary c;
              p = (case ucs_id c of None \<Rightarrow> 0 | Some i \<Rightarrow> i);
              devices = registered_devices c;
              s3 = s2\<lparr>ucs_connections := erase_key sid (ucs_connections s2)\<rparr>;
              s4 = (if was_primary then choose_new_primary p s3 else s3);
              s5 = fold Notify_device_about_ucs_connections devices s4
          in if ucs_connections s5 = [] \<and> \<not> transport_detector_on_when_diconnected s5
             then emit (Transport_activate False) s5 else s5)"


subsection \<open>Messages from a server\<close>

definition response_template :: "nat \<Rightarrow> nat \<Rightarrow> Status_code \<Rightarrow> Vsm_message" where
  "response_template mid dev_id c =
     empty_message\<lparr>message_id := Some mid, device_id := dev_id,
       device_response := Some \<lparr>code = c, progress = 0, status = []\<rparr>\<rparr>"

definition On_ucs_message ::
  "(Vsm_message \<Rightarrow> 8 word list) \<Rightarrow> nat \<Rightarrow> Vsm_message \<Rightarrow> Cucs_processor \<Rightarrow> Cucs_processor" where
  "On_ucs_message ser sid message s =
     (let dev_id = device_id message;
          dev = map_of (vehicles s) dev_id
      in if response_required message = Some True then
           (case dev of
              Some d \<Rightarrow>
                emit (Device_on_ucs_message dev_id message
                        (Some (sid, response_template (message_id_or_default message) dev_id
                                      STATUS_FAILED))) s
            | None \<Rightarrow>
                if dev_id \<noteq> 0
                then Send_ucs_message_ptr ser sid
                       (response_template (message_id_or_default message) dev_id
                          STATUS_INVALID_SESSION_ID)
                       (emit (Log ''Received message for unknown device'') s)
                else Send_ucs_message_ptr ser sid
                       (response_template (message_id_or_default message) dev_id STATUS_OK) s)
         else
           (case dev of
              Some d \<Rightarrow> emit (Device_on_ucs_message dev_id message None) s
            | None \<Rightarrow>
                if dev_id \<noteq> 0 then emit (Log ''Received message for unknown vehicle'') s
                else s))"

text \<open>
  The duplicate search of Read_completed, run when a register_peer arrives: \<open>lb\<close> is
  \<open>connection.address->Is_loopback_address()\<close> of the new connection. The result is
  (\<open>dupe\<close>, whether the primary was switched, the table with the old primary demoted).
  The new connection has no \<open>ucs_id\<close> yet, so the loop passes over it.
\<close>

fun find_duplicate ::
  "nat \<Rightarrow> bool \<Rightarrow> (nat \<times> Server_context) list \<Rightarrow>
     bool \<times> bool \<times> (nat \<times> Server_context) list" where
  "find_duplicate new_peer lb [] = (False, False, [])"
| "find_duplicate new_peer lb ((k, ucs) # conns) =
     (if ucs_id ucs = Some new_peer then
        (if primary ucs then
           (if \<not> Is_loopback_address (address ucs) \<or> lb
            then (True, True, (k, ucs\<lparr>primary := False\<rparr>) # conns)
            else (True, False, (k, ucs) # conns))
         else (case find_duplicate new_peer lb conns of
                 (dupe, switched, conns') \<Rightarrow> (True, switched, (k, ucs) # conns')))
      else (case find_duplicate new_peer lb conns of
              (dupe, switched, conns') \<Rightarrow> (dupe, switched, (k, ucs) # conns')))"

definition version_or_zero :: "nat option \<Rightarrow> nat" where
  "version_or_zero v = (case v of None \<Rightarrow> 0 | Some n \<Rightarrow> n)"

text \<open>
  Read_completed, register_peer from a server on a connection whose peer is not known yet
  (the peer type is absent or SERVER).
\<close>

definition register_server ::
  "(Vsm_message \<Rightarrow> 8 word list) \<Rightarrow> nat \<times> nat \<Rightarrow> nat \<Rightarrow> Server_context \<Rightarrow> Register_peer \<Rightarrow>
     Cucs_processor \<Rightarrow> Cucs_processor" where
  "register_server ser SUPPORTED_UCS_VERSION sid connection reg_peer s =
     (let new_peer = peer_id reg_peer;
          (dupe, switched, conns) =
             find_duplicate new_peer (Is_loopback_address (address connection))
               (ucs_connections s);
          s1 = s\<lparr>ucs_connections := conns\<rparr>;
          s2 = (if switched
                then emit (Log ''Switched primary connection'')
                       (update_connection sid (\<lambda>c. c\<lparr>primary := True\<rparr>) s1)
                else s1);
          ver_major = version_or_zero (version_major reg_peer);
          ver_minor = version_or_zero (version_minor reg_peer);
          s3 = update_connection sid (\<lambda>c. c\<lparr>ucs_id := Some new_peer\<rparr>) s2;
          s4 = (if dupe then emit (Log ''Another connection from UCS detected'') s3
                else emit (Transport_activate True)
                       (emit (Log ''New UCS detected'')
                          (update_connection sid (\<lambda>c. c\<lparr>primary := True\<rparr>) s3)));
          s5 = (if ver_major < fst SUPPORTED_UCS_VERSION \<or>
                   (ver_major = fst SUPPORTED_UCS_VERSION \<and>
                    ver_minor < snd SUPPORTED_UCS_VERSION)
                then emit (Log ''UCS is incompatible with this VSM.'')
                       (update_connection sid (\<lambda>c. c\<lparr>is_compatible := False\<rparr>) s4)
                else s4)
      in Send_vehicle_registrations ser sid s5)"

text \<open>
  Read_completed, a response to a pending device registration: \<open>mid\<close> is the message id
  found in \<open>pending_registrations\<close>, \<open>dev\<close> the device it maps to.
\<close>

definition cached_device_status :: "nat \<Rightarrow> Vehicle_context \<Rightarrow> Vsm_message" where
  "cached_device_status dev v =
     empty_message\<lparr>device_id := dev,
       device_status := Some
         \<lparr>telemetry_fields =
            filter (\<lambda>f. meta_value f = None \<or> meta_value f \<noteq> Some META_VALUE_NA)
              (map snd (telemetry_cache v)),
          command_availability = map snd (availability_cache v)\<rparr>\<rparr>"

definition registration_response ::
  "(Vsm_message \<Rightarrow> 8 word list) \<Rightarrow> nat \<Rightarrow> nat \<Rightarrow> nat \<Rightarrow> Status_code \<Rightarrow>
     Cucs_processor \<Rightarrow> Cucs_processor" where
  "registration_response ser sid mid dev c s =
     (case c of
        STATUS_OK \<Rightarrow>
          let s1 = emit (Log ''Device registered with ucs'') s;
              s2 = (case map_of (vehicles s1) dev of
                      None \<Rightarrow> s1
                    | Some v \<Rightarrow>
                        Send_ucs_message_ptr ser sid (cached_device_status dev v)
                          (Notify_device_about_ucs_connections dev
                             (update_connection sid
                                (\<lambda>c. c\<lparr>registered_devices :=
                                         insert_element dev (registered_devices c)\<rparr>) s1)))
          in update_connection sid
               (\<lambda>c. c\<lparr>pending_registrations := erase_key mid (pending_registrations c)\<rparr>) s2
      | STATUS_IN_PROGRESS \<Rightarrow> emit (Log ''Device registration with ucs in progress'') s
      | _ \<Rightarrow>
          update_connection sid
            (\<lambda>c. c\<lparr>pending_registrations := erase_key mid (pending_registrations c)\<rparr>)
            (emit (Log ''Device registration failed with ucs'') s))"

text \<open>
  Read_completed, the handling of a parsed message. \<open>Return\<close> is the early return after
  Close_ucs_stream; after \<open>Continue\<close> the caller resets the decoder to the next header.
\<close>

datatype handled = Continue Cucs_processor | Return Cucs_processor

definition handle_message ::
  "(Vsm_message \<Rightarrow> 8 word list) \<Rightarrow> nat \<times> nat \<Rightarrow> int \<Rightarrow> nat \<Rightarrow> Server_context \<Rightarrow> Vsm_message \<Rightarrow>
     Cucs_processor \<Rightarrow> handled" where
  "handle_message ser SUPPORTED_UCS_VERSION now sid connection vsm_msg s =
     (if ucs_id connection \<noteq> None then
        (let s1 = update_connection sid (\<lambda>c. c\<lparr>last_message_time := now\<rparr>) s in
         case device_response vsm_msg of
           None \<Rightarrow> Continue (On_ucs_message ser sid vsm_msg s1)
         | Some resp \<Rightarrow>
             (case map_of (pending_registrations connection) (message_id_or_default vsm_msg) of
                None \<Rightarrow> Continue (On_ucs_message ser sid vsm_msg s1)
              | Some dev \<Rightarrow>
                  Continue (registration_response ser sid (message_id_or_default vsm_msg) dev
                              (code resp) s1)))
      else
        (case register_peer vsm_msg of
           None \<Rightarrow>
             Continue (emit (Log ''Got message for device from unregistered peer. Dropped.'') s)
         | Some reg_peer \<Rightarrow>
             let s1 = update_connection sid (\<lambda>c. c\<lparr>last_message_time := now\<rparr>) s in
             if peer_type reg_peer = None \<or> peer_type reg_peer = Some PEER_TYPE_SERVER
             then Continue (register_server ser SUPPORTED_UCS_VERSION sid connection reg_peer s1)
             else Return (Close_ucs_stream sid
                            (emit (Log ''connection from invalid peer_type'') s1))))"

datatype Io_result = OK | TIMED_OUT | CANCELED | CLOSED | END_OF_FILE | OTHER_FAILURE

text \<open>
  Read_completed. \<open>PROTO_MAX_MESSAGE_LEN\<close> and the supported version are constants of a
  header that is not under src/, so they are parameters; \<open>now\<close> is the reading of the
  steady clock. Schedule_next_read at the end asks the stream for the next \<open>to_read\<close>
  bytes: the next call of Read_completed for this stream is its completion
  (\<open>read_frames\<close> above runs that loop for the decoder).
\<close>

definition Read_completed ::
  "(Vsm_message \<Rightarrow> 8 word list) \<Rightarrow> (8 word list \<Rightarrow> Vsm_message option) \<Rightarrow> nat \<Rightarrow> nat \<times> nat \<Rightarrow>
     int \<Rightarrow> 8 word list \<Rightarrow> Io_result \<Rightarrow> nat \<Rightarrow> Cucs_processor \<Rightarrow>
     error option \<times> Cucs_processor" where
  "Read_completed ser parse PROTO_MAX_MESSAGE_LEN SUPPORTED_UCS_VERSION now buffer result sid s =
     (case find_connection s sid of
        None \<Rightarrow> (None, s)
      | Some connection \<Rightarrow>
          if result = OK then
            (if reading_header connection then
               (if length buffer \<noteq> 1 then (Some Internal_error_exception, s)
                else case read_header_byte PROTO_MAX_MESSAGE_LEN connection (hd buffer) of
                       Header_undefined \<Rightarrow> (Some Undefined_shift, s)
                     | Header_too_long \<Rightarrow>
                         (None, Close_ucs_stream sid
                                  (emit (Log ''Proto message len exceeds allowed bytes!'') s))
                     | Header_next c \<Rightarrow> (None, update_connection sid (\<lambda>_. c) s))
             else
               (case parse buffer of
                  None \<Rightarrow>
                    (None, Close_ucs_stream sid
                             (emit (Log ''ParseFromArray failed, closing.'') s))
                | Some vsm_msg \<Rightarrow>
                    (case handle_message ser SUPPORTED_UCS_VERSION now sid connection vsm_msg s of
                       Return s1 \<Rightarrow> (None, s1)
                     | Continue s1 \<Rightarrow> (None, update_connection sid next_header s1))))
          else (None, Close_ucs_stream sid s))"

text \<open>
  Read_completed run on the bytes that arrive on the stream of connection \<open>sid\<close>: each
  read asks for \<open>to_read\<close> bytes and its completion schedules the next one, until the
  bytes run out, the connection is gone or an exception leaves the handler. The result
  holds the bytes that wait for the read in progress.
\<close>

function read_stream ::
  "(Vsm_message \<Rightarrow> 8 word list) \<Rightarrow> (8 word list \<Rightarrow> Vsm_message option) \<Rightarrow> nat \<Rightarrow> nat \<times> nat \<Rightarrow>
     int \<Rightarrow> nat \<Rightarrow> 8 word list \<Rightarrow> Cucs_processor \<Rightarrow>
     error option \<times> Cucs_processor \<times> 8 word list" where
  "read_stream ser parse PROTO_MAX_MESSAGE_LEN SUPPORTED_UCS_VERSION now sid input s =
     (case find_connection s sid of
        None \<Rightarrow> (None, s, input)
      | Some c \<Rightarrow>
          if to_read c = 0 \<or> length input < to_read c then (None, s, input)
          else
            (case Read_completed ser parse PROTO_MAX_MESSAGE_LEN SUPPORTED_UCS_VERSION now
                    (take (to_read c) input) OK sid s of
               (Some e, s1) \<Rightarrow> (Some e, s1, drop (to_read c) input)
             | (None, s1) \<Rightarrow>
                 read_stream ser parse PROTO_MAX_MESSAGE_LEN SUPPORTED_UCS_VERSION now sid
                   (drop (to_read c) input) s1))"
  by pat_completeness auto
termination
  by (relation "measure (\<lambda>(ser, parse, m, v, now, sid, input, s). length input)") auto

subsection \<open>Timer, connections, devices\<close>

definition ping_msg :: Vsm_message where
  "ping_msg = empty_message\<lparr>device_id := 0, response_required := Some True\<rparr>"

definition On_timer_connection ::
  "(Vsm_message \<Rightarrow> 8 word list) \<Rightarrow> int \<Rightarrow> int \<Rightarrow> nat \<Rightarrow> Server_context \<Rightarrow>
     Cucs_processor \<Rightarrow> Cucs_processor" where
  "On_timer_connection ser REGISTER_PEER_TIMEOUT now k c s =
     (if ucs_id c \<noteq> None then
        (if keep_alive_timeout s \<noteq> 0 then
           (if last_message_time c + keep_alive_timeout s < now
            then emit (Stream_close k) (emit (Log ''Server connection timed out'') s)
            else snd (Send_ucs_message ser k ping_msg s))
         else s)
      else
        (if last_message_time c + REGISTER_PEER_TIMEOUT < now \<and> ucs_id c = None
         then emit (Stream_close k) (emit (Log ''Server connection timed out'') s)
         else s))"

fun On_timer_loop ::
  "(Vsm_message \<Rightarrow> 8 word list) \<Rightarrow> int \<Rightarrow> int \<Rightarrow> nat list \<Rightarrow> Cucs_processor \<Rightarrow> Cucs_processor" where
  "On_timer_loop ser REGISTER_PEER_TIMEOUT now [] s = s"
| "On_timer_loop ser REGISTER_PEER_TIMEOUT now (k # ks) s =
     (case find_connection s k of
        None \<Rightarrow> On_timer_loop ser REGISTER_PEER_TIMEOUT now ks s
      | Some c \<Rightarrow>
          On_timer_loop ser REGISTER_PEER_TIMEOUT now ks
            (On_timer_connection ser REGISTER_PEER_TIMEOUT now k c s))"

text \<open>
  On_timer: one pass over the connections; the clock is read once per pass in the model
  (\<open>now\<close>), once per connection in the source.
\<close>

definition On_timer ::
  "(Vsm_message \<Rightarrow> 8 word list) \<Rightarrow> int \<Rightarrow> int \<Rightarrow> Cucs_processor \<Rightarrow> bool \<times> Cucs_processor" where
  "On_timer ser REGISTER_PEER_TIMEOUT now s =
     (True, On_timer_loop ser REGISTER_PEER_TIMEOUT now (map fst (ucs_connections s)) s)"

definition On_unregister_vehicle ::
  "(Vsm_message \<Rightarrow> 8 word list) \<Rightarrow> nat \<Rightarrow> Cucs_processor \<Rightarrow> error option \<times> Cucs_processor" where
  "On_unregister_vehicle ser dev_id s =
     (case map_of (vehicles s) dev_id of
        None \<Rightarrow> (Some Invalid_param_exception, s)
      | Some v \<Rightarrow>
          let reg = empty_message\<lparr>device_id := dev_id, has_unregister_device := True\<rparr>;
              s1 = s\<lparr>vehicles := erase_key dev_id (vehicles s)\<rparr>
          in (None, snd (Broadcast_message_to_ucs ser reg s1)))"

text \<open>
  On_incoming_connection for a TCP stream: \<open>self\<close> is the register_peer payload the VSM
  announces itself with (its instance id, name and SDK version come from outside src/).
\<close>

definition On_incoming_connection ::
  "(Vsm_message \<Rightarrow> 8 word list) \<Rightarrow> Register_peer \<Rightarrow> int \<Rightarrow> Socket_address \<Rightarrow>
     Cucs_processor \<Rightarrow> Cucs_processor" where
  "On_incoming_connection ser self now addr s =
     (let (new_id, s1) = Get_next_id s;
          s2 = s1\<lparr>ucs_connections :=
                 insert_entry new_id (new_context new_id addr now) (ucs_connections s1)\<rparr>
      in Send_ucs_message_ptr ser new_id
           (empty_message\<lparr>register_peer := Some self, device_id := 0\<rparr>) s2)"


subsection \<open>Streams in pieces\<close>

text \<open>
  The bytes of a stream may arrive in any pieces: the stream keeps the bytes that do not
  complete the read in progress (\<open>pending\<close>) until the next piece arrives.
\<close>

fun feed_chunks :: "nat \<Rightarrow> frames_result \<Rightarrow> 8 word list list \<Rightarrow> frames_result" where
  "feed_chunks M r [] = r"
| "feed_chunks M (Reading frames c pending) (chunk # chunks) =
     feed_chunks M (read_frames M c (pending @ chunk) frames) chunks"
| "feed_chunks M r (chunk # chunks) = r"

text \<open>The decoder after the last header byte of a frame of \<open>len\<close> bytes.\<close>

definition header_done :: "Server_context \<Rightarrow> nat \<Rightarrow> Server_context" where
  "header_done c len =
     (if len \<noteq> 0
      then c\<lparr>message_size := len, shift := 0, to_read := len, reading_header := False\<rparr>
      else c\<lparr>message_size := 0, shift := 0, to_read := 1\<rparr>)"

subsection \<open>Views of the state\<close>

text \<open>The events of a trace that act on the stream \<open>k\<close>.\<close>

definition on_stream :: "nat \<Rightarrow> event \<Rightarrow> bool" where
  "on_stream k e = (case e of Stream_close j \<Rightarrow> j = k | Stream_write j b \<Rightarrow> j = k | _ \<Rightarrow> False)"

text \<open>What one connection contributes to a tick; \<open>i\<close> is the message id of the ping.\<close>

definition tick_events ::
  "(Vsm_message \<Rightarrow> 8 word list) \<Rightarrow> int \<Rightarrow> int \<Rightarrow> int \<Rightarrow> nat \<Rightarrow> Server_context \<Rightarrow> nat \<Rightarrow> event list" where
  "tick_events ser REGISTER_PEER_TIMEOUT timeout now k c i =
     (if ucs_id c \<noteq> None then
        (if timeout \<noteq> 0 then
           (if now - last_message_time c > timeout then [Stream_close k]
            else if is_compatible c
            then [Stream_write k (encode_frame (ser (ping_msg\<lparr>message_id := Some i\<rparr>)))]
            else [])
         else [])
      else (if now - last_message_time c > REGISTER_PEER_TIMEOUT then [Stream_close k] else []))"

text \<open>The primary connections of peer \<open>p\<close>, and the invariant: every peer of the table has one.\<close>

definition primaries_of :: "nat \<Rightarrow> (nat \<times> Server_context) list \<Rightarrow> nat list" where
  "primaries_of p conns = map fst (filter (\<lambda>(k, c). ucs_id c = Some p \<and> primary c) conns)"

definition one_primary_per_peer :: "(nat \<times> Server_context) list \<Rightarrow> bool" where
  "one_primary_per_peer conns \<longleftrightarrow>
     list_all (\<lambda>(k, c). case ucs_id c of None \<Rightarrow> True
                         | Some p \<Rightarrow> length (primaries_of p conns) = 1) conns"

definition is_primary :: "Cucs_processor \<Rightarrow> nat \<Rightarrow> bool" where
  "is_primary s k = (case find_connection s k of None \<Rightarrow> False | Some c \<Rightarrow> primary c)"

text \<open>What the choice of the primary connection reads of a connection.\<close>

definition peer_table ::
  "(nat \<times> Server_context) list \<Rightarrow> (nat \<times> nat option \<times> bool \<times> Socket_address) list" where
  "peer_table conns = map (\<lambda>(k, c). (k, ucs_id c, primary c, address c)) conns"

text \<open>The decoder fields of the connections.\<close>

definition framing_table ::
  "(nat \<times> Server_context) list \<Rightarrow> (nat \<times> bool \<times> nat \<times> nat \<times> nat) list" where
  "framing_table conns =
     map (\<lambda>(k, c). (k, reading_header c, message_size c, shift c, to_read c)) conns"

subsection \<open>Example values\<close>

text \<open>
  Addresses, a serializer, connections and processor states for the concrete runs below.
  \<open>connected\<close> is a connection after its handshake, \<open>body_of\<close> a connection that
  has read the header of a two byte frame.
\<close>

definition loopback :: Socket_address where
  "loopback = \<lparr>address_string = ''127.0.0.1'', Is_loopback_address = True\<rparr>"

definition remote :: Socket_address where
  "remote = \<lparr>address_string = ''10.0.0.5'', Is_loopback_address = False\<rparr>"

definition toy_ser :: "Vsm_message \<Rightarrow> 8 word list" where
  "toy_ser m = [of_nat (device_id m), if has_unregister_device m then 1 else 0]"

definition connected :: "nat \<Rightarrow> Socket_address \<Rightarrow> nat \<Rightarrow> bool \<Rightarrow> Server_context" where
  "connected sid addr p prim = (new_context sid addr 0)\<lparr>ucs_id := Some p, primary := prim\<rparr>"

definition processor :: "(nat \<times> Server_context) list \<Rightarrow> (nat \<times> Vehicle_context) list \<Rightarrow> Cucs_processor" where
  "processor conns devs = \<lparr>ucs_connections = conns, vehicles = devs, ucs_id_counter = 100,
     keep_alive_timeout = 10, transport_detector_on_when_diconnected = False, trace = []\<rparr>"

definition body_of :: "Server_context \<Rightarrow> Server_context" where
  "body_of c = c\<lparr>reading_header := False, message_size := 2, to_read := 2\<rparr>"

definition T1 :: Telemetry_field where
  "T1 = \<lparr>field_id = 1, meta_value = None, field_data = 42\<rparr>"

definition T2 :: Telemetry_field where
  "T2 = \<lparr>field_id = 2, meta_value = Some META_VALUE_NA, field_data = 0\<rparr>"

definition A1 :: Command_availability where
  "A1 = \<lparr>command_id = 3, command_data = 1\<rparr>"

definition device_D :: Vehicle_context where
  "device_D = \<lparr>registration_message = empty_message\<lparr>device_id := 7, has_register_device := True\<rparr>,
     telemetry_cache = [(1, T1), (2, T2)], availability_cache = [(3, A1)]\<rparr>"

definition response_to :: "nat \<Rightarrow> Status_code \<Rightarrow> Vsm_message" where
  "response_to mid c = empty_message\<lparr>message_id := Some mid,
     device_response := Some \<lparr>code = c, progress = 0, status = []\<rparr>\<rparr>"

definition awaiting :: Server_context where
  "awaiting = body_of ((connected 1 loopback 9 True)\<lparr>pending_registrations := [(4, 7)]\<rparr>)"

definition unregister_7 :: Vsm_message where
  "unregister_7 = empty_message\<lparr>device_id := 7, has_unregister_device := True\<rparr>"

definition twice_pending :: Server_context where
  "twice_pending = (connected 1 loopback 9 True)
     \<lparr>registered_devices := [7], pending_registrations := [(10, 7), (11, 7)]\<rparr>"

definition hello :: Vsm_message where
  "hello = empty_message\<lparr>device_id := 5, register_peer := Some \<lparr>peer_id = 77,
     peer_type = Some PEER_TYPE_VSM, version_major = Some 3, version_minor = Some 0,
     version_build = None\<rparr>\<rparr>"

definition silent :: Server_context where
  "silent = (connected 1 loopback 9 True)\<lparr>is_compatible := False\<rparr>"

definition second_from :: "Socket_address \<Rightarrow> Cucs_processor" where
  "second_from addr =
     processor [(1, connected 1 remote 9 True), (2, body_of (new_context 2 addr 0))] []"

definition three_loopback :: Cucs_processor where
  "three_loopback = processor
     [(1, connected 1 loopback 9 False), (2, connected 2 loopback 9 False),
      (3, connected 3 loopback 9 True)] []"

text \<open>The processor as constructed, a server that registers as peer 9, and the VSM itself.\<close>

definition started :: Cucs_processor where
  "started = \<lparr>ucs_connections = [], vehicles = [], ucs_id_counter = 1, keep_alive_timeout = 0,
     transport_detector_on_when_diconnected = False, trace = []\<rparr>"

definition server_9 :: Vsm_message where
  "server_9 = empty_message\<lparr>register_peer := Some \<lparr>peer_id = 9,
     peer_type = Some PEER_TYPE_SERVER, version_major = Some 3, version_minor = Some 0,
     version_build = None\<rparr>\<rparr>"

definition vsm_peer :: Register_peer where
  "vsm_peer = \<lparr>peer_id = 77, peer_type = Some PEER_TYPE_VSM, version_major = Some 3,
     version_minor = Some 0, version_build = None\<rparr>"

text \<open>
  A server connects from the loopback address and sends its register_peer (peer 9): the
  connection is accepted, the header byte of a two byte frame is read, then the body.
\<close>

definition connect_server_9 :: "nat \<Rightarrow> Cucs_processor \<Rightarrow> Cucs_processor" where
  "connect_server_9 sid s =
     snd (Read_completed toy_ser (\<lambda>b. Some server_9) 1000 (3, 0) 0 [0, 0] OK sid
       (snd (Read_completed toy_ser (\<lambda>b. Some server_9) 1000 (3, 0) 0 [2] OK sid
          (On_incoming_connection toy_ser vsm_peer 0 loopback s))))"

definition three_connections :: Cucs_processor where
  "three_connections = connect_server_9 3 (connect_server_9 2 (connect_server_9 1 started))"

section \<open>Properties\<close>

declare write_header.simps [simp del] read_frames.simps [simp del] read_stream.simps [simp del]

subsection \<open>Bytes and bits\<close>

lemma and_7f: "(n::nat) AND 0x7f = n mod 128"
proof -
  have "n AND 0x7f = n AND mask 7" by (simp add: mask_eq_exp_minus_1)
  also have "\<dots> = take_bit 7 n" by (simp add: take_bit_eq_mask)
  also have "\<dots> = n mod 128" by (simp add: take_bit_eq_mod)
  finally show ?thesis .
qed

lemma and_80: "(n::nat) AND 0x80 \<noteq> 0 \<longleftrightarrow> odd (n div 128)"
proof -
  have e: "(128::nat) = 2 ^ 7" by simp
  show ?thesis unfolding e by (simp only: and_exp_eq_0_iff_not_bit not_not bit_iff_odd)
qed

lemma or_shifted: 
  fixes m v :: nat
  assumes "m < 2 ^ s"
  shows "m OR v * 2 ^ s = m + v * 2 ^ s"
proof -
  have m: "take_bit s m = m" using assms by (simp add: take_bit_nat_eq_self)
  have "take_bit s m + push_bit s v = take_bit s m OR push_bit s v"
    by (rule disjunctive_add) (auto simp: bit_simps)
  then show ?thesis by (simp add: m push_bit_eq_mult)
qed

lemma unat_low7: "unat (of_nat (n AND 0x7f) :: 8 word) = n mod 128"
proof -
  have "n mod 128 < 2 ^ 8" by (rule less_trans [of _ 128]) simp_all
  then show ?thesis by (simp add: and_7f unat_of_nat)
qed

lemma unat_low7_more: "unat ((of_nat (n AND 0x7f) :: 8 word) OR 0x80) = n mod 128 + 128"
proof -
  have "unat ((of_nat (n AND 0x7f) :: 8 word) OR 0x80) = unat (of_nat (n AND 0x7f) :: 8 word) OR unat (0x80 :: 8 word)"
    by (rule unsigned_or_eq)
  also have "\<dots> = n mod 128 OR 1 * 2 ^ 7" by (simp add: unat_low7)
  also have "\<dots> = n mod 128 + 1 * 2 ^ 7" by (rule or_shifted) simp
  finally show ?thesis by simp
qed

text \<open>One header byte of the encoder, read by the decoder.\<close>

lemma read_header_byte_more:
  assumes "unat b = k + 128" and "k < 128"
    and "message_size c < 2 ^ shift c" and "shift c < 32"
    and "k * 2 ^ shift c < 2 ^ 31"
    and "message_size c + k * 2 ^ shift c \<le> M"
  shows "read_header_byte M c b =
     Header_next (c\<lparr>message_size := message_size c + k * 2 ^ shift c,
                     shift := shift c + 7\<rparr>)"
proof -
  have hi: "(k + 128) AND 0x80 \<noteq> 0"
    using assms(2) by (intro and_80 [THEN iffD2]) (simp add: div_add_self2)
  have lo: "(k + 128) AND 0x7f = k" using assms(2) by (simp add: and_7f)
  have sh: "shift_left_int k (shift c) = Some (k * 2 ^ shift c)"
    using assms(4,5) by (simp add: shift_left_int_def)
  have orr: "message_size c OR k * 2 ^ shift c = message_size c + k * 2 ^ shift c"
    using assms(3) by (rule or_shifted)
  show ?thesis
    unfolding read_header_byte_def Let_def assms(1) lo sh
    using hi assms(6) by (simp add: orr)
qed

lemma read_header_byte_last:
  assumes "unat b = k" and "k < 128"
    and "message_size c < 2 ^ shift c" and "shift c < 32"
    and "k * 2 ^ shift c < 2 ^ 31"
    and "message_size c + k * 2 ^ shift c \<le> M"
  shows "read_header_byte M c b =
     Header_next (if message_size c + k * 2 ^ shift c \<noteq> 0
       then c\<lparr>message_size := message_size c + k * 2 ^ shift c, shift := 0,
              to_read := message_size c + k * 2 ^ shift c, reading_header := False\<rparr>
       else c\<lparr>message_size := 0, shift := 0, to_read := 1\<rparr>)"
proof -
  have hi: "k AND 0x80 = 0" using and_80 [of k] assms(2) by simp
  have lo: "k AND 0x7f = k" using assms(2) by (simp add: and_7f)
  have sh: "shift_left_int k (shift c) = Some (k * 2 ^ shift c)"
    using assms(4,5) by (simp add: shift_left_int_def)
  have orr: "message_size c OR k * 2 ^ shift c = message_size c + k * 2 ^ shift c"
    using assms(3) by (rule or_shifted)
  show ?thesis
    unfolding read_header_byte_def Let_def assms(1) lo sh
    using hi assms(6) by (simp add: orr)
qed



lemma read_frames_end:
  assumes "to_read c = 1"
  shows "read_frames M c [] frames = Reading frames c []"
  using assms by (subst read_frames.simps) simp

subsection \<open>The decoder reads what the encoder writes\<close>




lemma read_frames_stuck:
  "to_read c = 0 \<or> length input < to_read c \<Longrightarrow>
     read_frames M c input frames = Reading frames c input"
  by (subst read_frames.simps) simp

lemma read_frames_step:
  assumes "to_read c \<noteq> 0" and "to_read c \<le> length input"
  shows "read_frames M c input frames =
     (if reading_header c then
        (if to_read c \<noteq> 1 then Frames_internal_error frames
         else case read_header_byte M c (hd input) of
                Header_undefined \<Rightarrow> Frames_undefined frames
              | Header_too_long \<Rightarrow> Frames_closed frames
              | Header_next c' \<Rightarrow> read_frames M c' (drop (to_read c) input) frames)
      else read_frames M (next_header c) (drop (to_read c) input)
             (frames @ [take (to_read c) input]))"
proof -
  have "length (take (to_read c) input) = to_read c" using assms(2) by simp
  moreover have "hd (take (to_read c) input) = hd input" using assms(1) by (cases input) simp_all
  ultimately show ?thesis
    using assms by (subst read_frames.simps) (simp add: Let_def)
qed


lemma feed_chunks_stopped:
  "\<not> (\<exists>frames c pending. r = Reading frames c pending) \<Longrightarrow> feed_chunks M r chunks = r"
  by (cases chunks; cases r) simp_all


lemma new_context_simps:
  "reading_header (new_context sid a t)" "to_read (new_context sid a t) = 1"
  "message_size (new_context sid a t) = 0" "shift (new_context sid a t) = 0"
  by (simp_all add: new_context_def)

lemma write_header_0: "write_header 0 = [0]"
  by (subst write_header.simps) (simp add: Let_def)

lemma write_header_3: "write_header 3 = [3]"
  by (subst write_header.simps) (simp add: Let_def drop_bit_eq_div and_7f)

lemma read_header_byte_0:
  "read_header_byte M (new_context sid a t) 0 = Header_next (new_context sid a t)"
  by (simp add: read_header_byte_def shift_left_int_def new_context_def)

lemma read_header_byte_0x80:
  "shift c < 32 \<Longrightarrow> message_size c = 0 \<Longrightarrow>
     read_header_byte M c 0x80 = Header_next (c\<lparr>shift := shift c + 7\<rparr>)"
  by (simp add: read_header_byte_def shift_left_int_def and_7f)

lemma read_header_byte_undefined:
  "32 \<le> shift c \<Longrightarrow> read_header_byte M c b = Header_undefined"
  by (simp add: read_header_byte_def shift_left_int_def)





text \<open>
  A header byte 0 is a zero length message for the decoder: it goes on with the next
  header and hands no frame to the parser.
\<close>

lemma zero_length_frame_skipped:
  "feed_chunks M (Reading [] (new_context sid a t) []) [[0]] =
     Reading [] (new_context sid a t) []"
  by (simp add: read_frames_step read_frames_stuck read_header_byte_0 new_context_simps)

lemma read_header_byte_sign_bit:
  assumes "shift c = 28" and "message_size c = 0" and "M < 2 ^ 63"
  shows "read_header_byte M c 8 = Header_too_long"
  using assms by (simp add: read_header_byte_def shift_left_int_def and_7f)

text \<open>
  C8 fails on the code: the decoder does not count header bytes. Each byte 0x80 leaves
  \<open>message_size\<close> at 0, which is never above the limit, and adds 7 to \<open>shift\<close>: after
  five of them the decoder still reads the header with \<open>shift = 35\<close>, and the sixth
  byte, whatever it is, is shifted by more than the width of its operand.
\<close>

theorem header_bytes_unbounded:
  "read_frames M (new_context 1 loopback 0) [0x80, 0x80, 0x80, 0x80, 0x80] [] =
     Reading [] ((new_context 1 loopback 0)\<lparr>shift := 35\<rparr>) [] \<and>
   read_frames M (new_context 1 loopback 0) [0x80, 0x80, 0x80, 0x80, 0x80, b] [] =
     Frames_undefined []"
  by (simp add: read_frames_step read_frames_stuck read_header_byte_0x80
      read_header_byte_undefined new_context_simps)

subsection \<open>State plumbing\<close>

lemma map_of_update_entry:
  "map_of (update_entry key f table) k =
     (if k = key then map_option f (map_of table k) else map_of table k)"
  by (induction table) (auto simp: update_entry_def)

lemma map_fst_update_entry [simp]: "map fst (update_entry key f table) = map fst table"
  by (induction table) (auto simp: update_entry_def)

lemma emit_simps [simp]:
  "ucs_connections (emit e s) = ucs_connections s"
  "vehicles (emit e s) = vehicles s"
  "ucs_id_counter (emit e s) = ucs_id_counter s"
  "keep_alive_timeout (emit e s) = keep_alive_timeout s"
  "transport_detector_on_when_diconnected (emit e s) = transport_detector_on_when_diconnected s"
  "trace (emit e s) = trace s @ [e]"
  "find_connection (emit e s) k = find_connection s k"
  by (simp_all add: emit_def find_connection_def)

lemma update_connection_simps [simp]:
  "ucs_connections (update_connection sid f s) = update_entry sid f (ucs_connections s)"
  "vehicles (update_connection sid f s) = vehicles s"
  "ucs_id_counter (update_connection sid f s) = ucs_id_counter s"
  "keep_alive_timeout (update_connection sid f s) = keep_alive_timeout s"
  "transport_detector_on_when_diconnected (update_connection sid f s) =
     transport_detector_on_when_diconnected s"
  "trace (update_connection sid f s) = trace s"
  by (simp_all add: update_connection_def)

lemma find_connection_update_connection [simp]:
  "find_connection (update_connection sid f s) k =
     (if k = sid then map_option f (find_connection s k) else find_connection s k)"
  by (simp add: find_connection_def map_of_update_entry)

subsection \<open>Unregistering a device\<close>

text \<open>
  C10. On_unregister_vehicle (the handler of Unregister_device) for a device id that is
  not in \<open>vehicles\<close> raises Invalid_param_exception; the processor state is the one
  before the call: \<open>vehicles\<close> is unchanged and nothing was sent to any connection
  (the trace of writes is part of the state).
\<close>

theorem Unregister_unknown_device:
  assumes "dev_id \<notin> fst ` set (vehicles s)"
  shows "On_unregister_vehicle ser dev_id s = (Some Invalid_param_exception, s)"
proof -
  have "map_of (vehicles s) dev_id = None" using assms by (simp add: map_of_eq_None_iff)
  then show ?thesis by (simp add: On_unregister_vehicle_def)
qed

theorem Unregister_unknown_device_witness:
  "7 \<notin> fst ` set (vehicles (processor [(1, twice_pending)] [])) \<and>
   On_unregister_vehicle toy_ser 7 (processor [(1, twice_pending)] []) =
     (Some Invalid_param_exception, processor [(1, twice_pending)] [])"
  using Unregister_unknown_device [of 7 "processor [(1, twice_pending)] []" toy_ser]
  by (simp add: processor_def)

subsection \<open>A connection whose peer is not known yet\<close>

lemma Send_refused:
  assumes "find_connection s sid = Some ctx" and "ucs_id ctx = None"
    and "register_peer message = None"
  shows "Send_ucs_message ser sid message s =
     (message, emit (Log ''Must register peer before sending anything else'') s)"
  using assms by (simp add: Send_ucs_message_def)

lemma write_message_device_id: "device_id (fst (write_message ser sid m s)) = device_id m"
  by (simp add: write_message_def Get_next_id_def split: prod.splits)

lemma write_message_trace:
  "trace (snd (write_message ser sid m s)) =
     trace s @ [Stream_write sid (encode_frame (ser (fst (write_message ser sid m s))))]"
  by (simp add: write_message_def Get_next_id_def split: prod.splits)

lemma Send_register_peer_unknown:
  assumes "find_connection s sid = Some ctx" and "ucs_id ctx = None"
    and "register_peer message = Some rp"
  shows "device_id (fst (Send_ucs_message ser sid message s)) = 0"
    and "trace (snd (Send_ucs_message ser sid message s)) =
      (if is_compatible ctx
       then trace s @ [Stream_write sid (encode_frame (ser (fst (Send_ucs_message ser sid message s))))]
       else trace s)"
  using assms
  by (simp_all add: Send_ucs_message_def Let_def write_message_device_id write_message_trace
      Get_next_id_def split: prod.splits)

lemma Read_dropped:
  assumes "find_connection s sid = Some connection" and "\<not> reading_header connection"
    and "ucs_id connection = None"
    and "parse buffer = Some vsm_msg" and "register_peer vsm_msg = None"
  shows "Read_completed ser parse M V now buffer OK sid s =
     (None, update_connection sid next_header
              (emit (Log ''Got message for device from unregistered peer. Dropped.'') s))"
  using assms by (simp add: Read_completed_def handle_message_def)

subsection \<open>Responses to pending registrations\<close>

lemma Notify_simps [simp]:
  "ucs_connections (Notify_device_about_ucs_connections d s) = ucs_connections s"
  "vehicles (Notify_device_about_ucs_connections d s) = vehicles s"
  "ucs_id_counter (Notify_device_about_ucs_connections d s) = ucs_id_counter s"
  "find_connection (Notify_device_about_ucs_connections d s) k = find_connection s k"
  by (simp_all add: Notify_device_about_ucs_connections_def find_connection_def
      split: option.splits)

lemma Notify_trace:
  "trace (Notify_device_about_ucs_connections d s) =
     (if map_of (vehicles s) d = None then trace s
      else trace s @ [Handle_ucs_info d (ucs_data d (ucs_connections s))])"
  by (simp add: Notify_device_about_ucs_connections_def split: option.splits)

lemma cached_device_status_simps [simp]:
  "device_id (cached_device_status dev v) = dev"
  "message_id (cached_device_status dev v) = None"
  "response_required (cached_device_status dev v) = None"
  "\<not> has_register_device (cached_device_status dev v)"
  "\<not> has_unregister_device (cached_device_status dev v)"
  by (simp_all add: cached_device_status_def empty_message_def)

lemma write_message_plain:
  "message_id m \<noteq> None \<or> response_required m \<noteq> Some True \<Longrightarrow>
     write_message ser sid m s = (m, emit (Stream_write sid (encode_frame (ser m))) s)"
  by (auto simp: write_message_def)

lemma Send_cached_device_status:
  assumes "find_connection s sid = Some c" and "ucs_id c \<noteq> None" and "is_compatible c"
    and "dev \<in> set (registered_devices c)"
  shows "Send_ucs_message_ptr ser sid (cached_device_status dev v) s =
     emit (Stream_write sid (encode_frame (ser (cached_device_status dev v)))) s"
  using assms
  by (auto simp: Send_ucs_message_ptr_def Send_ucs_message_def write_message_plain Let_def)

lemma insert_element_member [simp]: "x \<in> set (insert_element x xs)"
  by (simp add: insert_element_def)

text \<open>
  C5 (as amended). A device_response arrives on a connection with its peer id set (and
  compatible, as every connection with a pending registration is), and its message id
  \<open>mid\<close> is in \<open>pending_registrations\<close>, mapped to \<open>dev\<close>.
  STATUS_OK and \<open>dev\<close> still in \<open>vehicles\<close>: \<open>dev\<close> is inserted into
  \<open>registered_devices\<close>, the device is notified of its peer set (this connection
  included), a device_status with the telemetry cache without the entries whose meta
  value is N/A and with the whole availability cache is written on this connection, and
  the pending entry is removed.
  STATUS_OK and \<open>dev\<close> no longer in \<open>vehicles\<close>: only the pending entry is removed.
  STATUS_IN_PROGRESS: the pending entry is kept.
  Any other code: the pending entry is removed and \<open>registered_devices\<close> is unchanged.
  In every case \<open>last_message_time\<close> is set and the decoder goes to the next header.
\<close>

theorem registration_response_handling:
  fixes ser :: "Vsm_message \<Rightarrow> 8 word list" and M :: nat and V :: "nat \<times> nat" and now :: int
  assumes conn: "find_connection s sid = Some c" and "\<not> reading_header c"
    and peer: "ucs_id c \<noteq> None" and compat: "is_compatible c"
    and msg: "parse buffer = Some vsm_msg" and resp: "device_response vsm_msg = Some r"
    and pend: "map_of (pending_registrations c) (message_id_or_default vsm_msg) = Some dev"
  defines "mid \<equiv> message_id_or_default vsm_msg"
  defines "s' \<equiv> snd (Read_completed ser parse M V now buffer OK sid s)"
  shows "(code r = STATUS_OK \<and> map_of (vehicles s) dev = Some v \<longrightarrow>
           find_connection s' sid = Some (next_header (c\<lparr>last_message_time := now,
              registered_devices := insert_element dev (registered_devices c),
              pending_registrations := erase_key mid (pending_registrations c)\<rparr>)) \<and>
           trace s' = trace s @
             [Log ''Device registered with ucs'',
              Handle_ucs_info dev
                (ucs_data dev (update_entry sid
                   (\<lambda>c. c\<lparr>last_message_time := now,
                           registered_devices := insert_element dev (registered_devices c)\<rparr>)
                   (ucs_connections s))),
              Stream_write sid (encode_frame (ser
                (empty_message\<lparr>device_id := dev, device_status := Some
                   \<lparr>telemetry_fields =
                      filter (\<lambda>f. meta_value f \<noteq> Some META_VALUE_NA)
                        (map snd (telemetry_cache v)),
                    command_availability = map snd (availability_cache v)\<rparr>\<rparr>)))]) \<and>
         (code r = STATUS_OK \<and> map_of (vehicles s) dev = None \<longrightarrow>
           find_connection s' sid = Some (next_header (c\<lparr>last_message_time := now,
              pending_registrations := erase_key mid (pending_registrations c)\<rparr>)) \<and>
           trace s' = trace s @ [Log ''Device registered with ucs'']) \<and>
         (code r = STATUS_IN_PROGRESS \<longrightarrow>
           find_connection s' sid = Some (next_header (c\<lparr>last_message_time := now\<rparr>)) \<and>
           trace s' = trace s @ [Log ''Device registration with ucs in progress'']) \<and>
         (code r \<noteq> STATUS_OK \<and> code r \<noteq> STATUS_IN_PROGRESS \<longrightarrow>
           find_connection s' sid = Some (next_header (c\<lparr>last_message_time := now,
              pending_registrations := erase_key mid (pending_registrations c)\<rparr>)) \<and>
           trace s' = trace s @ [Log ''Device registration failed with ucs''])"
proof -
  let ?s1 = "update_connection sid (\<lambda>c. c\<lparr>last_message_time := now\<rparr>) s"
  have rc: "s' = update_connection sid next_header (registration_response ser sid mid dev (code r) ?s1)"
    using conn assms(2) peer msg resp pend
    by (simp add: s'_def mid_def Read_completed_def handle_message_def)
  have ok_known: "registration_response ser sid mid dev STATUS_OK ?s1 =
      update_connection sid
        (\<lambda>c. c\<lparr>pending_registrations := erase_key mid (pending_registrations c)\<rparr>)
        (emit (Stream_write sid (encode_frame (ser (cached_device_status dev v))))
           (Notify_device_about_ucs_connections dev
              (update_connection sid
                 (\<lambda>c. c\<lparr>registered_devices := insert_element dev (registered_devices c)\<rparr>)
                 (emit (Log ''Device registered with ucs'') ?s1))))"
    if "map_of (vehicles s) dev = Some v"
    using that conn peer compat
    by (simp add: registration_response_def Send_cached_device_status)
  have sent: "cached_device_status dev v =
      empty_message\<lparr>device_id := dev, device_status := Some
         \<lparr>telemetry_fields =
            filter (\<lambda>f. meta_value f \<noteq> Some META_VALUE_NA) (map snd (telemetry_cache v)),
          command_availability = map snd (availability_cache v)\<rparr>\<rparr>"
  proof -
    have "(\<lambda>f :: Telemetry_field. meta_value f = None \<or> meta_value f \<noteq> Some META_VALUE_NA) =
        (\<lambda>f. meta_value f \<noteq> Some META_VALUE_NA)"
      by auto
    then show ?thesis by (simp add: cached_device_status_def)
  qed
  have c1: "find_connection s' sid = Some (next_header (c\<lparr>last_message_time := now,
              registered_devices := insert_element dev (registered_devices c),
              pending_registrations := erase_key mid (pending_registrations c)\<rparr>)) \<and>
           trace s' = trace s @
             [Log ''Device registered with ucs'',
              Handle_ucs_info dev
                (ucs_data dev (update_entry sid
                   (\<lambda>c. c\<lparr>last_message_time := now,
                           registered_devices := insert_element dev (registered_devices c)\<rparr>)
                   (ucs_connections s))),
              Stream_write sid (encode_frame (ser (cached_device_status dev v)))]"
    if "code r = STATUS_OK" and known: "map_of (vehicles s) dev = Some v"
  proof -
    have "update_entry sid
            (\<lambda>c. c\<lparr>registered_devices := insert_element dev (registered_devices c)\<rparr>)
            (update_entry sid (\<lambda>c. c\<lparr>last_message_time := now\<rparr>) (ucs_connections s)) =
          update_entry sid
            (\<lambda>c. c\<lparr>last_message_time := now,
                    registered_devices := insert_element dev (registered_devices c)\<rparr>)
            (ucs_connections s)"
      by (simp add: update_entry_def comp_def case_prod_unfold)
    then show ?thesis
      using conn that by (simp add: rc ok_known [OF known] Notify_trace next_header_def)
  qed
  have c2: "find_connection s' sid = Some (next_header (c\<lparr>last_message_time := now,
              pending_registrations := erase_key mid (pending_registrations c)\<rparr>)) \<and>
           trace s' = trace s @ [Log ''Device registered with ucs'']"
    if "code r = STATUS_OK" and "map_of (vehicles s) dev = None"
    using conn that by (simp add: rc registration_response_def next_header_def)
  have c3: "find_connection s' sid = Some (next_header (c\<lparr>last_message_time := now\<rparr>)) \<and>
           trace s' = trace s @ [Log ''Device registration with ucs in progress'']"
    if "code r = STATUS_IN_PROGRESS"
    using conn that by (simp add: rc registration_response_def next_header_def)
  have c4: "find_connection s' sid = Some (next_header (c\<lparr>last_message_time := now,
              pending_registrations := erase_key mid (pending_registrations c)\<rparr>)) \<and>
           trace s' = trace s @ [Log ''Device registration failed with ucs'']"
    if "code r \<noteq> STATUS_OK" and "code r \<noteq> STATUS_IN_PROGRESS"
    using conn that
    by (cases "code r") (simp_all add: rc registration_response_def next_header_def)
  show ?thesis
    unfolding sent [symmetric] using c1 c2 c3 c4 by blast
qed

text \<open>
  C5 as stated fails when the device has left \<open>vehicles\<close> before the response
  arrives: with STATUS_OK the device is not inserted into \<open>registered_devices\<close>, it is
  not notified and no device_status is sent; only the pending entry goes.
\<close>

theorem registration_response_unknown_device:
  "find_connection (processor [(1, awaiting)] []) 1 = Some awaiting \<and>
   map_of (pending_registrations awaiting) 4 = Some 7 \<and>
   (let s' = snd (Read_completed toy_ser (\<lambda>b. Some (response_to 4 STATUS_OK)) 1000 (3, 0) 50
                    [0, 0] OK 1 (processor [(1, awaiting)] []))
    in map_option registered_devices (find_connection s' 1) = Some [] \<and>
       trace s' = [Log ''Device registered with ucs''])"
  by (simp add: Read_completed_def handle_message_def registration_response_def
      find_connection_def processor_def awaiting_def body_of_def connected_def new_context_def
      response_to_def empty_message_def message_id_or_default_def update_entry_def erase_key_def
      next_header_def)

theorem registration_response_handling_witness:
  "(let s' = snd (Read_completed toy_ser (\<lambda>b. Some (response_to 4 STATUS_OK)) 1000 (3, 0) 50
                    [0, 0] OK 1 (processor [(1, awaiting)] [(7, device_D)]))
    in map_option registered_devices (find_connection s' 1) = Some [7] \<and>
       map_option pending_registrations (find_connection s' 1) = Some [] \<and>
       trace s' =
         [Log ''Device registered with ucs'',
          Handle_ucs_info 7 [\<lparr>info_ucs_id = 9, info_address = loopback, info_primary = True,
                               info_last_message_time = 50\<rparr>],
          Stream_write 1 (encode_frame (toy_ser (empty_message\<lparr>device_id := 7,
            device_status := Some \<lparr>telemetry_fields = [T1], command_availability = [A1]\<rparr>\<rparr>)))])"
proof -
  let ?s = "processor [(1, awaiting)] [(7, device_D)]"
  have "find_connection ?s 1 = Some awaiting" by (simp add: find_connection_def processor_def)
  moreover have "\<not> reading_header awaiting" "ucs_id awaiting \<noteq> None" "is_compatible awaiting"
    "map_of (pending_registrations awaiting) (message_id_or_default (response_to 4 STATUS_OK)) = Some 7"
    by (simp_all add: awaiting_def body_of_def connected_def new_context_def response_to_def
        message_id_or_default_def empty_message_def)
  moreover have "device_response (response_to 4 STATUS_OK) =
      Some \<lparr>code = STATUS_OK, progress = 0, status = []\<rparr>"
    by (simp add: response_to_def empty_message_def)
  moreover have "map_of (vehicles ?s) 7 = Some device_D" by (simp add: processor_def)
  ultimately show ?thesis
    using registration_response_handling [of ?s 1 awaiting "\<lambda>b. Some (response_to 4 STATUS_OK)"
        "[0, 0]" "response_to 4 STATUS_OK" "\<lparr>code = STATUS_OK, progress = 0, status = []\<rparr>"
        7 device_D toy_ser 1000 "(3, 0)" 50]
    by (simp add: Let_def ucs_data_def processor_def update_entry_def awaiting_def body_of_def
        connected_def new_context_def insert_element_def erase_key_def next_header_def
        device_D_def T1_def T2_def message_id_or_default_def response_to_def empty_message_def)
qed

subsection \<open>Device messages on a connection\<close>

text \<open>
  What Send_ucs_message does with a device message and with a register_device on a
  connection that has its peer id and is compatible.
\<close>

lemma Send_device_message:
  assumes "find_connection s sid = Some ctx" and "ucs_id ctx \<noteq> None" and "is_compatible ctx"
    and "\<not> has_register_device message" and "device_id message \<noteq> 0"
  shows "Send_ucs_message ser sid message s =
     (if device_id message \<notin> set (registered_devices ctx) then (message, s)
      else if has_unregister_device message then
        write_message ser sid message
          (update_connection sid
             (\<lambda>c. c\<lparr>registered_devices := removeAll (device_id message) (registered_devices c),
                     pending_registrations :=
                       erase_pending_of_device (device_id message) (pending_registrations c)\<rparr>) s)
      else write_message ser sid message s)"
  using assms by (auto simp: Send_ucs_message_def Let_def)

lemma Send_register_device:
  assumes "find_connection s sid = Some ctx" and "ucs_id ctx \<noteq> None" and "is_compatible ctx"
    and "has_register_device message"
  shows "Send_ucs_message ser sid message s =
     (let m = message\<lparr>response_required := Some True, message_id := Some (ucs_id_counter s)\<rparr>
      in (m, emit (Stream_write sid (encode_frame (ser m)))
               (update_connection sid
                  (\<lambda>c. c\<lparr>pending_registrations :=
                           insert_entry (ucs_id_counter s) (device_id message)
                             (pending_registrations c)\<rparr>)
                  (s\<lparr>ucs_id_counter := ucs_id_counter s + 1\<rparr>))))"
  using assms by (auto simp: Send_ucs_message_def Let_def Get_next_id_def write_message_plain)

text \<open>
  C6 fails on the code in its last part. The connection has device 7 registered and two
  pending registrations of device 7 (message ids 10 and 11). An unregister_device for
  device 7 is written and device 7 leaves \<open>registered_devices\<close>, but only the first
  pending entry is erased (the search stops at its first hit): the entry of message 11
  still maps to device 7.
\<close>

theorem unregister_leaves_pending_entry:
  "find_connection (processor [(1, twice_pending)] []) 1 = Some twice_pending \<and>
   7 \<in> set (registered_devices twice_pending) \<and>
   (let s' = snd (Send_ucs_message ser 1 unregister_7 (processor [(1, twice_pending)] []))
    in map_option registered_devices (find_connection s' 1) = Some [] \<and>
       map_option pending_registrations (find_connection s' 1) = Some [(11, 7)] \<and>
       trace s' = [Stream_write 1 (encode_frame (ser unregister_7))])"
  by (simp add: Send_ucs_message_def write_message_def find_connection_def processor_def
      twice_pending_def connected_def new_context_def unregister_7_def empty_message_def
      update_entry_def erase_pending_of_device_def erase_key_def emit_def update_connection_def
      Let_def)

subsection \<open>The timer\<close>

lemma on_stream_simps [simp]:
  "on_stream k (Stream_close j) \<longleftrightarrow> j = k"
  "on_stream k (Stream_write j b) \<longleftrightarrow> j = k"
  "\<not> on_stream k (Log l)"
  by (simp_all add: on_stream_def)

lemma Send_ping:
  "Send_ucs_message ser k ping_msg s =
     (case find_connection s k of
        None \<Rightarrow> (ping_msg, s)
      | Some c \<Rightarrow>
          if ucs_id c = None
          then (ping_msg, emit (Log ''Must register peer before sending anything else'') s)
          else if \<not> is_compatible c then (ping_msg, s)
          else (ping_msg\<lparr>message_id := Some (ucs_id_counter s)\<rparr>,
                emit (Stream_write k
                        (encode_frame (ser (ping_msg\<lparr>message_id := Some (ucs_id_counter s)\<rparr>))))
                  (s\<lparr>ucs_id_counter := ucs_id_counter s + 1\<rparr>)))"
  by (simp add: Send_ucs_message_def write_message_def Get_next_id_def ping_msg_def
      empty_message_def split: option.splits)

lemma On_timer_connection_frame:
  "ucs_connections (On_timer_connection ser R now k c s) = ucs_connections s"
  "keep_alive_timeout (On_timer_connection ser R now k c s) = keep_alive_timeout s"
  "ucs_id_counter s \<le> ucs_id_counter (On_timer_connection ser R now k c s)"
  by (simp_all add: On_timer_connection_def Send_ping emit_def split: option.splits)

lemma On_timer_connection_other:
  "j \<noteq> k \<Longrightarrow>
     filter (on_stream j) (trace (On_timer_connection ser R now k c s)) =
     filter (on_stream j) (trace s)"
  by (simp add: On_timer_connection_def Send_ping emit_def split: option.splits)

lemma On_timer_connection_self:
  "find_connection s k = Some c \<Longrightarrow>
     filter (on_stream k) (trace (On_timer_connection ser R now k c s)) =
     filter (on_stream k) (trace s) @
       tick_events ser R (keep_alive_timeout s) now k c (ucs_id_counter s)"
  by (auto simp: On_timer_connection_def Send_ping emit_def tick_events_def)

lemma On_timer_loop_frame:
  "ucs_connections (On_timer_loop ser R now ks s) = ucs_connections s \<and>
   keep_alive_timeout (On_timer_loop ser R now ks s) = keep_alive_timeout s \<and>
   ucs_id_counter s \<le> ucs_id_counter (On_timer_loop ser R now ks s)"
proof (induction ks arbitrary: s)
  case Nil
  then show ?case by simp
next
  case (Cons k ks)
  show ?case
  proof (cases "find_connection s k")
    case None
    then have "On_timer_loop ser R now (k # ks) s = On_timer_loop ser R now ks s" by simp
    then show ?thesis using Cons.IH [of s] by (simp only:)
  next
    case (Some c)
    let ?s = "On_timer_connection ser R now k c s"
    have eq: "On_timer_loop ser R now (k # ks) s = On_timer_loop ser R now ks ?s"
      using Some by simp
    have "ucs_connections ?s = ucs_connections s" "keep_alive_timeout ?s = keep_alive_timeout s"
      "ucs_id_counter s \<le> ucs_id_counter ?s"
      by (rule On_timer_connection_frame)+
    then show ?thesis
      unfolding eq using Cons.IH [of ?s] by (metis order_trans)
  qed
qed

lemma On_timer_loop_other:
  "j \<notin> set ks \<Longrightarrow>
     filter (on_stream j) (trace (On_timer_loop ser R now ks s)) = filter (on_stream j) (trace s)"
proof (induction ks arbitrary: s)
  case Nil
  then show ?case by simp
next
  case (Cons k ks)
  then have j: "j \<noteq> k" "j \<notin> set ks" by simp_all
  show ?case
  proof (cases "find_connection s k")
    case None
    then show ?thesis using Cons.IH [OF j(2), of s] by simp
  next
    case (Some c)
    then show ?thesis
      using Cons.IH [OF j(2), of "On_timer_connection ser R now k c s"]
        On_timer_connection_other [OF j(1), of ser R now c s]
      by simp
  qed
qed

lemma On_timer_loop_self:
  assumes "distinct ks" and "k \<in> set ks" and "find_connection s k = Some c"
  shows "\<exists>i\<ge>ucs_id_counter s.
     filter (on_stream k) (trace (On_timer_loop ser R now ks s)) =
     filter (on_stream k) (trace s) @ tick_events ser R (keep_alive_timeout s) now k c i"
  using assms
proof (induction ks arbitrary: s)
  case Nil
  then show ?case by simp
next
  case (Cons j ks)
  show ?case
  proof (cases "j = k")
    case True
    let ?s = "On_timer_connection ser R now k c s"
    have eq: "On_timer_loop ser R now (j # ks) s = On_timer_loop ser R now ks ?s"
      using True Cons.prems(3) by simp
    have "k \<notin> set ks" using Cons.prems(1) True by simp
    then have "filter (on_stream k) (trace (On_timer_loop ser R now ks ?s)) =
        filter (on_stream k) (trace ?s)"
      by (rule On_timer_loop_other)
    also have "\<dots> = filter (on_stream k) (trace s) @
        tick_events ser R (keep_alive_timeout s) now k c (ucs_id_counter s)"
      using Cons.prems(3) by (rule On_timer_connection_self)
    finally show ?thesis unfolding eq by blast
  next
    case False
    then have k: "k \<in> set ks" "distinct ks" using Cons.prems by simp_all
    show ?thesis
    proof (cases "find_connection s j")
      case None
      then have "On_timer_loop ser R now (j # ks) s = On_timer_loop ser R now ks s" by simp
      then show ?thesis using Cons.IH [OF k(2,1) Cons.prems(3)] by (simp only:)
    next
      case (Some d)
      let ?s = "On_timer_connection ser R now j d s"
      have eq: "On_timer_loop ser R now (j # ks) s = On_timer_loop ser R now ks ?s"
        using Some by simp
      have frame: "ucs_connections ?s = ucs_connections s"
        "keep_alive_timeout ?s = keep_alive_timeout s"
        "ucs_id_counter s \<le> ucs_id_counter ?s"
        by (rule On_timer_connection_frame)+
      have same: "filter (on_stream k) (trace ?s) = filter (on_stream k) (trace s)"
        using False by (intro On_timer_connection_other) simp
      have "find_connection ?s k = Some c"
        using Cons.prems(3) frame(1) by (simp add: find_connection_def)
      from Cons.IH [OF k(2,1) this] obtain i where i:
        "ucs_id_counter ?s \<le> i"
        "filter (on_stream k) (trace (On_timer_loop ser R now ks ?s)) =
           filter (on_stream k) (trace ?s) @ tick_events ser R (keep_alive_timeout ?s) now k c i"
        by blast
      have "ucs_id_counter s \<le> i" using i(1) frame(3) by linarith
      moreover have "filter (on_stream k) (trace (On_timer_loop ser R now ks ?s)) =
           filter (on_stream k) (trace s) @ tick_events ser R (keep_alive_timeout s) now k c i"
        using i(2) by (simp only: same frame(2))
      ultimately show ?thesis unfolding eq by blast
    qed
  qed
qed

text \<open>
  C9 (as amended). On a timer tick, for every connection \<open>(k, c)\<close> of the table, what
  the tick adds to the events of stream \<open>k\<close> is:
  with the peer id set and a keep-alive timeout configured (not 0): the close of the stream
  if \<open>now - last_message_time\<close> exceeds the timeout; otherwise exactly one ping, a
  message with \<open>device_id = 0\<close>, \<open>response_required = true\<close> and a message id
  allocated during the tick, when the connection is compatible, and nothing when it is
  not compatible;
  with the peer id set and no timeout configured: nothing;
  with the peer id unset: the close of the stream if \<open>now - last_message_time\<close>
  exceeds \<open>REGISTER_PEER_TIMEOUT\<close>, nothing otherwise.
  The callback returns true.
\<close>

theorem On_timer_tick:
  assumes "distinct (map fst (ucs_connections s))" and "(k, c) \<in> set (ucs_connections s)"
  shows "fst (On_timer ser REGISTER_PEER_TIMEOUT now s) = True \<and>
    (\<exists>i\<ge>ucs_id_counter s.
       filter (on_stream k) (trace (snd (On_timer ser REGISTER_PEER_TIMEOUT now s))) =
       filter (on_stream k) (trace s) @
         (if ucs_id c \<noteq> None then
            (if keep_alive_timeout s \<noteq> 0 then
               (if now - last_message_time c > keep_alive_timeout s then [Stream_close k]
                else if is_compatible c
                then [Stream_write k (encode_frame (ser
                        (empty_message\<lparr>device_id := 0, response_required := Some True,
                                         message_id := Some i\<rparr>)))]
                else [])
             else [])
          else (if now - last_message_time c > REGISTER_PEER_TIMEOUT then [Stream_close k]
                else [])))"
proof -
  have "find_connection s k = Some c"
    using assms by (simp add: find_connection_def)
  moreover have "k \<in> set (map fst (ucs_connections s))"
    using assms(2) by (force simp: image_iff)
  ultimately obtain i where i: "ucs_id_counter s \<le> i"
    "filter (on_stream k)
       (trace (On_timer_loop ser REGISTER_PEER_TIMEOUT now (map fst (ucs_connections s)) s)) =
     filter (on_stream k) (trace s) @
       tick_events ser REGISTER_PEER_TIMEOUT (keep_alive_timeout s) now k c i"
    using On_timer_loop_self [OF assms(1), where k = k and s = s and c = c and ser = ser
        and R = REGISTER_PEER_TIMEOUT and now = now]
    by blast
  have tick: "snd (On_timer ser REGISTER_PEER_TIMEOUT now s) =
      On_timer_loop ser REGISTER_PEER_TIMEOUT now (map fst (ucs_connections s)) s"
    by (simp add: On_timer_def)
  show ?thesis
  proof (intro conjI exI [of _ i])
    show "fst (On_timer ser REGISTER_PEER_TIMEOUT now s) = True" by (simp add: On_timer_def)
    show "ucs_id_counter s \<le> i" by (rule i(1))
    show "filter (on_stream k) (trace (snd (On_timer ser REGISTER_PEER_TIMEOUT now s))) =
       filter (on_stream k) (trace s) @
         (if ucs_id c \<noteq> None then
            (if keep_alive_timeout s \<noteq> 0 then
               (if now - last_message_time c > keep_alive_timeout s then [Stream_close k]
                else if is_compatible c
                then [Stream_write k (encode_frame (ser
                        (empty_message\<lparr>device_id := 0, response_required := Some True,
                                         message_id := Some i\<rparr>)))]
                else [])
             else [])
          else (if now - last_message_time c > REGISTER_PEER_TIMEOUT then [Stream_close k]
                else []))"
      unfolding tick i(2) by (simp add: tick_events_def ping_msg_def)
  qed
qed

text \<open>
  C9 as stated fails for a connection that is not compatible: its peer id is set, the
  timeout (10) has not expired, and the tick sends no ping on it; the state after the
  tick is the state before.
\<close>

theorem On_timer_no_ping_when_incompatible:
  "ucs_id silent \<noteq> None \<and> 0 < keep_alive_timeout (processor [(1, silent)] []) \<and>
   \<not> 5 - last_message_time silent > keep_alive_timeout (processor [(1, silent)] []) \<and>
   On_timer toy_ser 60 5 (processor [(1, silent)] []) = (True, processor [(1, silent)] [])"
  by (simp add: On_timer_def On_timer_connection_def Send_ping find_connection_def
      processor_def silent_def connected_def new_context_def)

theorem On_timer_tick_witness:
  "\<exists>i\<ge>100. filter (on_stream 1)
      (trace (snd (On_timer toy_ser 60 5 (processor [(1, connected 1 loopback 9 True)] [])))) =
     [Stream_write 1 (encode_frame (toy_ser
        (empty_message\<lparr>device_id := 0, response_required := Some True, message_id := Some i\<rparr>)))]"
  using On_timer_tick [where s = "processor [(1, connected 1 loopback 9 True)] []" and k = 1
      and c = "connected 1 loopback 9 True" and ser = toy_ser and REGISTER_PEER_TIMEOUT = 60
      and now = 5]
  by (simp add: processor_def connected_def new_context_def)

subsection \<open>One primary connection for a peer\<close>

lemma On_incoming_connection_eval:
  assumes "ucs_id_counter s \<notin> fst ` set (ucs_connections s)"
  shows "On_incoming_connection toy_ser vsm_peer 0 loopback s =
     s\<lparr>ucs_connections := ucs_connections s @ [(ucs_id_counter s, new_context (ucs_id_counter s) loopback 0)],
       ucs_id_counter := ucs_id_counter s + 1,
       trace := trace s @ [Stream_write (ucs_id_counter s) (encode_frame (toy_ser
          (empty_message\<lparr>register_peer := Some vsm_peer, device_id := 0\<rparr>)))]\<rparr>"
proof -
  have "map_of (ucs_connections s) (ucs_id_counter s) = None"
    using assms by (simp add: map_of_eq_None_iff)
  then show ?thesis
    using assms
    by (simp add: On_incoming_connection_def Get_next_id_def insert_entry_def
        Send_ucs_message_ptr_def Send_ucs_message_def find_connection_def new_context_def
        write_message_def emit_def empty_message_def Let_def map_add_def)
qed

lemma loopback_simps [simp]: "Is_loopback_address loopback" "\<not> Is_loopback_address remote"
  by (simp_all add: loopback_def remote_def)

lemmas run_defs =
  connect_server_9_def Read_completed_def find_connection_def new_context_def
  read_header_byte_def shift_left_int_def update_connection_def update_entry_def
  handle_message_def server_9_def empty_message_def register_server_def Let_def emit_def
  version_or_zero_def Send_vehicle_registrations_def next_header_def connected_def

lemma connect_first:
  assumes "ucs_connections s = []" and "vehicles s = []" and "ucs_id_counter s = 1"
  shows "ucs_connections (connect_server_9 1 s) = [(1, connected 1 loopback 9 True)] \<and>
    vehicles (connect_server_9 1 s) = [] \<and> ucs_id_counter (connect_server_9 1 s) = 2"
  using assms by (simp add: On_incoming_connection_eval run_defs)

lemma connect_second:
  assumes "ucs_connections s = [(1, connected 1 loopback 9 True)]" and "vehicles s = []"
    and "ucs_id_counter s = 2"
  shows "ucs_connections (connect_server_9 2 s) =
      [(1, connected 1 loopback 9 False), (2, connected 2 loopback 9 True)] \<and>
    vehicles (connect_server_9 2 s) = [] \<and> ucs_id_counter (connect_server_9 2 s) = 3"
  using assms by (simp add: On_incoming_connection_eval run_defs loopback_simps)

lemma connect_third:
  assumes "ucs_connections s =
      [(1, connected 1 loopback 9 False), (2, connected 2 loopback 9 True)]"
    and "vehicles s = []" and "ucs_id_counter s = 3"
  shows "ucs_connections (connect_server_9 3 s) =
      [(1, connected 1 loopback 9 False), (2, connected 2 loopback 9 False),
       (3, connected 3 loopback 9 True)] \<and>
    vehicles (connect_server_9 3 s) = [] \<and> ucs_id_counter (connect_server_9 3 s) = 4"
  using assms by (simp add: On_incoming_connection_eval run_defs loopback_simps)

lemma three_connections_table:
  "ucs_connections three_connections =
      [(1, connected 1 loopback 9 False), (2, connected 2 loopback 9 False),
       (3, connected 3 loopback 9 True)]"
proof -
  have "ucs_connections started = []" "vehicles started = []" "ucs_id_counter started = 1"
    by (simp_all add: started_def)
  note one = connect_first [OF this]
  note two = connect_second [OF one [THEN conjunct1] one [THEN conjunct2, THEN conjunct1]
      one [THEN conjunct2, THEN conjunct2]]
  note three = connect_third [OF two [THEN conjunct1] two [THEN conjunct2, THEN conjunct1]
      two [THEN conjunct2, THEN conjunct2]]
  show ?thesis unfolding three_connections_def by (rule three [THEN conjunct1])
qed

lemma primaries_of_simps [simp]:
  "primaries_of p [] = []"
  "primaries_of p ((k, c) # conns) =
     (if ucs_id c = Some p \<and> primary c then k # primaries_of p conns else primaries_of p conns)"
  by (simp_all add: primaries_of_def)

lemma connected_simps [simp]:
  "ucs_id (connected k a p b) = Some p" "primary (connected k a p b) = b"
  "address (connected k a p b) = a" "registered_devices (connected k a p b) = []"
  by (simp_all add: connected_def new_context_def)

text \<open>
  C1 fails on the code. Three servers connect from the loopback address and register the
  same peer 9, one after the other; \<open>three_connections\<close> is the state these handlers
  reach from the start state. Its table has one primary connection for peer 9 (the
  third). When the read on the third stream fails, Close_ucs_stream erases it and makes
  both remaining loopback connections primary: peer 9 has two primary connections.
\<close>

theorem two_primaries_after_close:
  "one_primary_per_peer (ucs_connections three_connections) \<and>
   primaries_of 9
     (ucs_connections (snd (Read_completed toy_ser parse 1000 (3, 0) 60 [] CLOSED 3
        three_connections))) = [1, 2] \<and>
   \<not> one_primary_per_peer
     (ucs_connections (snd (Read_completed toy_ser parse 1000 (3, 0) 60 [] CLOSED 3
        three_connections)))"
proof -
  have "ucs_connections (snd (Read_completed toy_ser parse 1000 (3, 0) 60 [] CLOSED 3
        three_connections)) =
      [(1, connected 1 loopback 9 True), (2, connected 2 loopback 9 True)]"
    by (simp add: Read_completed_def Close_ucs_stream_def find_connection_def
        three_connections_table erase_key_def choose_new_primary_def promote_loopback_def
        is_loopback_sibling_def Let_def emit_def connected_def new_context_def)
  then show ?thesis
    by (simp add: three_connections_table one_primary_per_peer_def)
qed

text \<open>
  C2 fails on the code. The primary connection 3 of peer 9 is closed while two other
  connections of peer 9, both from the loopback address, remain: the first pass of the
  failover has no break and promotes every loopback sibling, here both.
\<close>

theorem failover_promotes_every_loopback:
  "map (\<lambda>(k, c). (k, Is_loopback_address (address c), primary c))
     (ucs_connections three_loopback) = [(1, True, False), (2, True, False), (3, True, True)] \<and>
   map (\<lambda>(k, c). (k, Is_loopback_address (address c), primary c))
     (ucs_connections (Close_ucs_stream 3 three_loopback)) = [(1, True, True), (2, True, True)]"
  by (simp add: Close_ucs_stream_def find_connection_def three_loopback_def processor_def
      erase_key_def choose_new_primary_def promote_loopback_def
      is_loopback_sibling_def Let_def emit_def)

subsection \<open>The primary connection chosen on register_peer\<close>

lemma peer_table_update_entry:
  assumes "\<And>c. ucs_id (f c) = ucs_id c \<and> primary (f c) = primary c \<and> address (f c) = address c"
  shows "peer_table (update_entry k f conns) = peer_table conns"
  using assms by (induction conns) (auto simp: peer_table_def update_entry_def)

lemma map_of_peer_table:
  "map_of (peer_table conns) k = map_option (\<lambda>c. (ucs_id c, primary c, address c)) (map_of conns k)"
  by (induction conns) (auto simp: peer_table_def)

lemma is_primary_peer_table:
  "is_primary s k = (case map_of (peer_table (ucs_connections s)) k of
                       None \<Rightarrow> False | Some (u, p, a) \<Rightarrow> p)"
  by (simp add: is_primary_def find_connection_def map_of_peer_table split: option.splits)

lemma is_primary_cong:
  "peer_table (ucs_connections a) = peer_table (ucs_connections b) \<Longrightarrow>
     is_primary a k = is_primary b k"
  by (simp add: is_primary_peer_table)

lemma write_message_connections [simp]:
  "ucs_connections (snd (write_message ser sid m s)) = ucs_connections s"
  "vehicles (snd (write_message ser sid m s)) = vehicles s"
  by (simp_all add: write_message_def Get_next_id_def split: prod.splits)

lemma Send_ucs_message_peer_table:
  "peer_table (ucs_connections (snd (Send_ucs_message ser sid m s))) =
     peer_table (ucs_connections s)"
  by (simp add: Send_ucs_message_def Let_def Get_next_id_def peer_table_update_entry
      split: option.splits prod.splits)

lemma Send_vehicle_registrations_loop_peer_table:
  "peer_table (ucs_connections (Send_vehicle_registrations_loop ser sid ds s)) =
     peer_table (ucs_connections s)"
proof (induction ds arbitrary: s)
  case Nil
  then show ?case by simp
next
  case (Cons d ds)
  show ?case
  proof (cases "map_of (vehicles s) d")
    case None
    then show ?thesis using Cons.IH [of s] by simp
  next
    case (Some v)
    obtain m s1 where send: "Send_ucs_message ser sid (registration_message v) s = (m, s1)"
      by (cases "Send_ucs_message ser sid (registration_message v) s")
    have "peer_table (ucs_connections s1) = peer_table (ucs_connections s)"
      using Send_ucs_message_peer_table [of ser sid "registration_message v" s] send by simp
    then show ?thesis
      using Some send
        Cons.IH [of "s1\<lparr>vehicles :=
                     update_entry d (\<lambda>v. v\<lparr>registration_message := m\<rparr>) (vehicles s1)\<rparr>"]
      by simp
  qed
qed

lemma Send_vehicle_registrations_peer_table:
  "peer_table (ucs_connections (Send_vehicle_registrations ser sid s)) =
     peer_table (ucs_connections s)"
  by (simp add: Send_vehicle_registrations_def Send_vehicle_registrations_loop_peer_table)

text \<open>The duplicate search, by the first primary connection of the peer.\<close>

lemma find_duplicate_keys:
  "map fst (snd (snd (find_duplicate p lb conns))) = map fst conns"
  by (induction conns) (auto split: prod.splits)

lemma find_duplicate_dupe:
  "fst (find_duplicate p lb conns) \<longleftrightarrow> (\<exists>(k, u) \<in> set conns. ucs_id u = Some p)"
  by (induction conns) (auto split: prod.splits)

lemma find_duplicate_no_primary:
  "find (\<lambda>(k, u). ucs_id u = Some p \<and> primary u) conns = None \<Longrightarrow>
     snd (find_duplicate p lb conns) = (False, conns)"
  by (induction conns) (auto split: prod.splits)

lemma find_duplicate_primary:
  assumes "find (\<lambda>(k, u). ucs_id u = Some p \<and> primary u) conns = Some (k, old)"
    and "distinct (map fst conns)"
  shows "fst (find_duplicate p lb conns) \<and>
     fst (snd (find_duplicate p lb conns)) = (\<not> Is_loopback_address (address old) \<or> lb) \<and>
     map_of (snd (snd (find_duplicate p lb conns))) j =
       (if j = k \<and> (\<not> Is_loopback_address (address old) \<or> lb)
        then Some (old\<lparr>primary := False\<rparr>) else map_of conns j)"
  using assms
proof (induction conns)
  case Nil
  then show ?case by simp
next
  case (Cons x conns)
  obtain k0 u0 where x: "x = (k0, u0)" by (cases x)
  show ?case
  proof (cases "ucs_id u0 = Some p \<and> primary u0")
    case True
    then have "k = k0" "old = u0" using Cons.prems(1) x by simp_all
    then show ?thesis using True x by simp
  next
    case False
    then have found: "find (\<lambda>(k, u). ucs_id u = Some p \<and> primary u) conns = Some (k, old)"
      using Cons.prems(1) x by (auto split: if_splits)
    then have "(k, old) \<in> set conns"
      by (metis find_Some_iff nth_mem)
    then have "k \<in> fst ` set conns" by force
    then have "k \<noteq> k0" using Cons.prems(2) x by auto
    then show ?thesis
      using False x Cons.IH [OF found] Cons.prems(2)
      by (auto split: prod.splits)
  qed
qed

lemma find_update_entry:
  assumes "\<And>k c. P (k, f c) = P (k, c)"
  shows "find P (update_entry sid f conns) =
     map_option (\<lambda>(k, c). (k, if k = sid then f c else c)) (find P conns)"
  using assms by (induction conns) (auto simp: update_entry_def)

lemma find_filter_conj: "find P (filter Q xs) = find (\<lambda>x. Q x \<and> P x) xs"
  by (induction xs) auto

lemma update_entry_siblings:
  assumes "\<And>c. ucs_id (f c) = ucs_id c"
  shows "filter (\<lambda>(k, u). ucs_id u = Some p) (update_entry sid f conns) =
     update_entry sid f (filter (\<lambda>(k, u). ucs_id u = Some p) conns)"
  using assms by (induction conns) (auto simp: update_entry_def split: if_splits)

lemma register_server_primary:
  "is_primary (register_server ser V sid connection reg_peer s) j =
     (case find_duplicate (peer_id reg_peer) (Is_loopback_address (address connection))
             (ucs_connections s) of
        (dupe, switched, conns) \<Rightarrow>
          (case map_of conns j of
             None \<Rightarrow> False
           | Some c \<Rightarrow> if j = sid then switched \<or> \<not> dupe \<or> primary c else primary c))"
proof -
  obtain dupe switched conns where fd:
    "find_duplicate (peer_id reg_peer) (Is_loopback_address (address connection))
       (ucs_connections s) = (dupe, switched, conns)"
    by (cases "find_duplicate (peer_id reg_peer) (Is_loopback_address (address connection))
                 (ucs_connections s)") auto
  show ?thesis
    unfolding register_server_def fd Let_def prod.case
    by (subst is_primary_cong [OF Send_vehicle_registrations_peer_table])
       (auto simp: is_primary_def find_connection_def map_of_update_entry split: option.splits)
qed

text \<open>
  C3 (as amended). A register_peer of a server (peer type absent or SERVER) arrives on a
  connection whose peer id is unset and which is not primary. \<open>siblings\<close> are the
  connections that already carry this peer id, in iteration order.
  No sibling: the new connection becomes primary.
  Some sibling is primary, \<open>old\<close> being the first one found: if \<open>old\<close> is not a
  loopback connection or the new connection is a loopback connection, \<open>old\<close> is demoted
  and the new connection promoted; otherwise (\<open>old\<close> loopback, the new one not) the new
  connection stays non-primary and \<open>old\<close> stays primary.
  Siblings, none of them primary: the new connection stays non-primary.
\<close>

theorem register_peer_primary_selection:
  fixes ser :: "Vsm_message \<Rightarrow> 8 word list" and M :: nat and V :: "nat \<times> nat" and now :: int
  assumes dist: "distinct (map fst (ucs_connections s))"
    and conn: "find_connection s sid = Some connection" and body: "\<not> reading_header connection"
    and unknown: "ucs_id connection = None" and fresh: "\<not> primary connection"
    and msg: "parse buffer = Some vsm_msg" and reg: "register_peer vsm_msg = Some reg_peer"
    and server: "peer_type reg_peer = None \<or> peer_type reg_peer = Some PEER_TYPE_SERVER"
  defines "s' \<equiv> snd (Read_completed ser parse M V now buffer OK sid s)"
  defines "siblings \<equiv> filter (\<lambda>(k, u). ucs_id u = Some (peer_id reg_peer)) (ucs_connections s)"
  shows "(siblings = [] \<longrightarrow> is_primary s' sid) \<and>
         (\<forall>k old. find (\<lambda>(k, u). primary u) siblings = Some (k, old) \<longrightarrow>
            (if \<not> Is_loopback_address (address old) \<or> Is_loopback_address (address connection)
             then is_primary s' sid \<and> \<not> is_primary s' k
             else \<not> is_primary s' sid \<and> is_primary s' k)) \<and>
         (siblings \<noteq> [] \<and> find (\<lambda>(k, u). primary u) siblings = None \<longrightarrow> \<not> is_primary s' sid)"
proof -
  let ?p = "peer_id reg_peer" and ?lb = "Is_loopback_address (address connection)"
  let ?f = "\<lambda>c :: Server_context. c\<lparr>last_message_time := now\<rparr>"
  let ?P = "\<lambda>(k :: nat, u). ucs_id u = Some ?p \<and> primary u"
  let ?conns = "ucs_connections s"
  let ?conns1 = "update_entry sid ?f ?conns"
  let ?s1 = "update_connection sid ?f s"
  let ?fd = "find_duplicate ?p ?lb ?conns1"
  have at_sid: "map_of ?conns sid = Some connection"
    using conn by (simp add: find_connection_def)
  have s': "s' = update_connection sid next_header (register_server ser V sid connection reg_peer ?s1)"
    using conn body unknown msg reg server
    by (auto simp: s'_def Read_completed_def handle_message_def)
  have prim: "is_primary s' j =
      (case ?fd of (dupe, switched, conns) \<Rightarrow>
         (case map_of conns j of
            None \<Rightarrow> False
          | Some c \<Rightarrow> if j = sid then switched \<or> \<not> dupe \<or> primary c else primary c))" for j
  proof -
    have "is_primary s' j = is_primary (register_server ser V sid connection reg_peer ?s1) j"
      unfolding s' by (auto simp: is_primary_def next_header_def split: option.splits)
    then show ?thesis by (simp add: register_server_primary)
  qed
  have find1: "find ?P ?conns1 =
      map_option (\<lambda>(k, c). (k, if k = sid then ?f c else c)) (find ?P ?conns)"
    by (rule find_update_entry) simp
  have find_sib: "find (\<lambda>(k, u). primary u) siblings = find ?P ?conns"
    unfolding siblings_def find_filter_conj by (rule arg_cong2 [where f = find]) auto
  have at1: "map_of ?conns1 j = (if j = sid then Some (?f connection) else map_of ?conns j)" for j
    using at_sid by (simp add: map_of_update_entry)
  have dist1: "distinct (map fst ?conns1)" using dist by simp
  have dupe: "fst ?fd \<longleftrightarrow> siblings \<noteq> []"
  proof -
    have "filter (\<lambda>(k, u). ucs_id u = Some ?p) ?conns1 = update_entry sid ?f siblings"
      unfolding siblings_def by (rule update_entry_siblings) simp
    then have "filter (\<lambda>(k, u). ucs_id u = Some ?p) ?conns1 \<noteq> [] \<longleftrightarrow> siblings \<noteq> []"
      by (simp add: update_entry_def)
    then show ?thesis
      by (simp add: find_duplicate_dupe filter_empty_conv)
  qed
  have none: "is_primary s' sid \<longleftrightarrow> siblings = []" if "find ?P ?conns = None"
  proof -
    have "find ?P ?conns1 = None" using that by (simp add: find1)
    then have "snd ?fd = (False, ?conns1)" by (rule find_duplicate_no_primary)
    then have "?fd = (fst ?fd, False, ?conns1)" by (metis prod.collapse)
    then show ?thesis
      using dupe fresh by (simp add: prim [of sid] at1 split: prod.splits)
  qed
  have some: "(if \<not> Is_loopback_address (address old) \<or> ?lb
             then is_primary s' sid \<and> \<not> is_primary s' k
             else \<not> is_primary s' sid \<and> is_primary s' k)"
    if found: "find ?P ?conns = Some (k, old)" for k old
  proof -
    have old: "(k, old) \<in> set ?conns" "ucs_id old = Some ?p" "primary old"
      using found by (metis find_Some_iff nth_mem, auto simp: find_Some_iff)
    have at_k: "map_of ?conns k = Some old" using old(1) dist by simp
    have "k \<noteq> sid" using at_k at_sid old(2) unknown by auto
    then have "find ?P ?conns1 = Some (k, old)" using found by (simp add: find1)
    from find_duplicate_primary [OF this dist1, of ?lb]
    have fd: "fst ?fd" "fst (snd ?fd) = (\<not> Is_loopback_address (address old) \<or> ?lb)"
      "\<And>j. map_of (snd (snd ?fd)) j =
        (if j = k \<and> (\<not> Is_loopback_address (address old) \<or> ?lb)
         then Some (old\<lparr>primary := False\<rparr>) else map_of ?conns1 j)"
      by blast+
    have p_sid: "is_primary s' sid \<longleftrightarrow> (\<not> Is_loopback_address (address old) \<or> ?lb)"
      using fd(1,2) fd(3) [of sid] \<open>k \<noteq> sid\<close> fresh
      by (simp add: prim [of sid] at1 case_prod_unfold)
    have p_k: "is_primary s' k \<longleftrightarrow> \<not> (\<not> Is_loopback_address (address old) \<or> ?lb)"
      using fd(3) [of k] \<open>k \<noteq> sid\<close> at_k old(3)
      by (simp add: prim [of k] at1 case_prod_unfold)
    show ?thesis using p_sid p_k by simp
  qed
  show ?thesis
  proof (intro conjI allI impI)
    assume empty: "siblings = []"
    then have "find ?P ?conns = None" using find_sib by simp
    then show "is_primary s' sid" using none empty by simp
  next
    fix k old
    assume "find (\<lambda>(k, u). primary u) siblings = Some (k, old)"
    then have "find ?P ?conns = Some (k, old)" using find_sib by simp
    then show "if \<not> Is_loopback_address (address old) \<or> ?lb
       then is_primary s' sid \<and> \<not> is_primary s' k
       else \<not> is_primary s' sid \<and> is_primary s' k"
      by (rule some)
  next
    assume "siblings \<noteq> [] \<and> find (\<lambda>(k, u). primary u) siblings = None"
    then show "\<not> is_primary s' sid" using none find_sib by simp
  qed
qed

text \<open>
  C3 as stated fails when both addresses are non-loopback: the primary connection 1 of
  peer 9 and the new connection 2 both come from a remote address, and the
  register_peer on connection 2 makes it primary and demotes connection 1, where the
  claim has the new connection stay non-primary.
\<close>

theorem register_peer_remote_takes_over:
  "\<not> Is_loopback_address (address (connected 1 remote 9 True)) \<and>
   \<not> Is_loopback_address (address (body_of (new_context 2 remote 0))) \<and>
   is_primary (second_from remote) 1 \<and> \<not> is_primary (second_from remote) 2 \<and>
   is_primary (snd (Read_completed toy_ser (\<lambda>b. Some server_9) 1000 (3, 0) 5 [0, 0] OK 2
                      (second_from remote))) 2 \<and>
   \<not> is_primary (snd (Read_completed toy_ser (\<lambda>b. Some server_9) 1000 (3, 0) 5 [0, 0] OK 2
                        (second_from remote))) 1"
  by (simp add: is_primary_def Read_completed_def handle_message_def register_server_def
      Send_vehicle_registrations_def find_connection_def second_from_def processor_def
      body_of_def new_context_def server_9_def empty_message_def update_connection_def
      update_entry_def emit_def version_or_zero_def Let_def next_header_def)

theorem register_peer_primary_selection_witness:
  "is_primary (snd (Read_completed toy_ser (\<lambda>b. Some server_9) 1000 (3, 0) 5 [0, 0] OK 2
                      (second_from loopback))) 2 \<and>
   \<not> is_primary (snd (Read_completed toy_ser (\<lambda>b. Some server_9) 1000 (3, 0) 5 [0, 0] OK 2
                        (second_from loopback))) 1"
proof -
  let ?new = "body_of (new_context 2 loopback 0)"
  let ?rp = "\<lparr>peer_id = 9, peer_type = Some PEER_TYPE_SERVER, version_major = Some 3,
     version_minor = Some 0, version_build = None\<rparr>"
  have h: "distinct (map fst (ucs_connections (second_from loopback)))"
    "find_connection (second_from loopback) 2 = Some ?new"
    "\<not> reading_header ?new" "ucs_id ?new = None" "\<not> primary ?new"
    "register_peer server_9 = Some ?rp"
    "peer_type ?rp = None \<or> peer_type ?rp = Some PEER_TYPE_SERVER"
    by (simp_all add: second_from_def processor_def find_connection_def body_of_def
        new_context_def server_9_def empty_message_def)
  have found: "find (\<lambda>(k, u). primary u)
      (filter (\<lambda>(k, u). ucs_id u = Some (peer_id ?rp)) (ucs_connections (second_from loopback))) =
      Some (1, connected 1 remote 9 True)"
    by (simp add: second_from_def processor_def body_of_def new_context_def)
  show ?thesis
    using register_peer_primary_selection [OF h(1-5) refl h(6,7), where ser = toy_ser
        and M = 1000 and V = "(3, 0)" and now = 5 and buffer = "[0, 0]"] found
    by simp
qed

subsection \<open>The decoder inside Read_completed\<close>

lemma framing_table_update_entry:
  assumes "\<And>c. reading_header (f c) = reading_header c \<and> message_size (f c) = message_size c \<and>
    shift (f c) = shift c \<and> to_read (f c) = to_read c"
  shows "framing_table (update_entry k f conns) = framing_table conns"
  using assms by (induction conns) (auto simp: framing_table_def update_entry_def)

lemma map_of_framing_table:
  "map_of (framing_table conns) k =
     map_option (\<lambda>c. (reading_header c, message_size c, shift c, to_read c)) (map_of conns k)"
  by (induction conns) (auto simp: framing_table_def)

lemma Send_ucs_message_framing:
  "framing_table (ucs_connections (snd (Send_ucs_message ser sid m s))) =
     framing_table (ucs_connections s)"
  by (simp add: Send_ucs_message_def Let_def Get_next_id_def framing_table_update_entry
      split: option.splits prod.splits)

lemma Send_vehicle_registrations_loop_framing:
  "framing_table (ucs_connections (Send_vehicle_registrations_loop ser sid ds s)) =
     framing_table (ucs_connections s)"
proof (induction ds arbitrary: s)
  case Nil
  then show ?case by simp
next
  case (Cons d ds)
  show ?case
  proof (cases "map_of (vehicles s) d")
    case None
    then show ?thesis using Cons.IH [of s] by simp
  next
    case (Some v)
    obtain m s1 where send: "Send_ucs_message ser sid (registration_message v) s = (m, s1)"
      by (cases "Send_ucs_message ser sid (registration_message v) s")
    have "framing_table (ucs_connections s1) = framing_table (ucs_connections s)"
      using Send_ucs_message_framing [of ser sid "registration_message v" s] send by simp
    then show ?thesis
      using Some send
        Cons.IH [of "s1\<lparr>vehicles :=
                     update_entry d (\<lambda>v. v\<lparr>registration_message := m\<rparr>) (vehicles s1)\<rparr>"]
      by simp
  qed
qed

lemma find_duplicate_framing:
  "framing_table (snd (snd (find_duplicate p lb conns))) = framing_table conns"
  by (induction conns) (auto simp: framing_table_def split: prod.splits)

lemma On_ucs_message_framing:
  "framing_table (ucs_connections (On_ucs_message ser sid m s)) =
     framing_table (ucs_connections s)"
  by (simp add: On_ucs_message_def Let_def Send_ucs_message_ptr_def Send_ucs_message_framing
      split: option.splits)

lemma registration_response_framing:
  "framing_table (ucs_connections (registration_response ser sid mid dev c s)) =
     framing_table (ucs_connections s)"
  by (cases c)
     (simp_all add: registration_response_def Let_def Send_ucs_message_ptr_def
        Send_ucs_message_framing framing_table_update_entry split: option.splits)

lemma register_server_framing:
  "framing_table (ucs_connections (register_server ser V sid connection reg_peer s)) =
     framing_table (ucs_connections s)"
proof -
  obtain dupe switched conns where fd:
    "find_duplicate (peer_id reg_peer) (Is_loopback_address (address connection))
       (ucs_connections s) = (dupe, switched, conns)"
    by (cases "find_duplicate (peer_id reg_peer) (Is_loopback_address (address connection))
                 (ucs_connections s)") auto
  have "framing_table conns = framing_table (ucs_connections s)"
    using find_duplicate_framing [of "peer_id reg_peer"
        "Is_loopback_address (address connection)" "ucs_connections s"] fd by simp
  then show ?thesis
    unfolding register_server_def fd Let_def prod.case
    by (simp add: Send_vehicle_registrations_def Send_vehicle_registrations_loop_framing
        framing_table_update_entry)
qed

lemma handle_message_framing:
  assumes "handle_message ser V now sid connection vsm_msg s = Continue s1"
  shows "framing_table (ucs_connections s1) = framing_table (ucs_connections s)"
  using assms
  by (auto simp: handle_message_def Let_def On_ucs_message_framing registration_response_framing
      register_server_framing framing_table_update_entry split: option.splits if_splits)

text \<open>
  One call of Read_completed does to the decoder of its connection what one step of
  \<open>read_frames\<close> does: a header byte goes through \<open>read_header_byte\<close>; a body is the
  buffer given to the parser, and when the message is handled without closing the
  connection, the decoder is at the next header.
\<close>

lemma Read_completed_header:
  assumes "find_connection s sid = Some c" and "reading_header c"
    and "read_header_byte M c b = Header_next c'"
  shows "Read_completed ser parse M V now [b] OK sid s = (None, update_connection sid (\<lambda>_. c') s)"
  using assms by (simp add: Read_completed_def)

lemma Read_completed_body:
  assumes "find_connection s sid = Some c" and "\<not> reading_header c"
    and "parse buffer = Some vsm_msg"
    and "handle_message ser V now sid c vsm_msg s = Continue s1"
  shows "Read_completed ser parse M V now buffer OK sid s =
           (None, update_connection sid next_header s1) \<and>
         map_option (\<lambda>c. (reading_header c, message_size c, shift c, to_read c))
           (find_connection (update_connection sid next_header s1) sid) =
         Some (reading_header (next_header c), message_size (next_header c),
               shift (next_header c), to_read (next_header c))"
proof -
  have "map_of (framing_table (ucs_connections s1)) sid =
      map_of (framing_table (ucs_connections s)) sid"
    using handle_message_framing [OF assms(4)] by simp
  then obtain c1 where c1: "find_connection s1 sid = Some c1" "shift c1 = shift c"
    using assms(1) by (auto simp: map_of_framing_table find_connection_def)
  then show ?thesis
    using assms by (simp add: Read_completed_def next_header_def)
qed

subsection \<open>Traffic of a connection whose peer is not known yet\<close>

text \<open>
  The header bytes of a frame, read by any reader \<open>F\<close> that passes each header byte
  through \<open>read_header_byte\<close>.
\<close>

lemma write_header_steps:
  fixes F :: "Server_context \<Rightarrow> 8 word list \<Rightarrow> 'r"
  assumes F_step: "\<And>c b c' rest. reading_header c \<Longrightarrow> to_read c = 1 \<Longrightarrow>
    read_header_byte M c b = Header_next c' \<Longrightarrow> F c (b # rest) = F c' rest"
  shows "reading_header c \<Longrightarrow> to_read c = 1 \<Longrightarrow> message_size c < 2 ^ shift c \<Longrightarrow>
   shift c < 32 \<Longrightarrow> n * 2 ^ shift c < 2 ^ 31 \<Longrightarrow> message_size c + n * 2 ^ shift c \<le> M \<Longrightarrow>
   F c (write_header n @ rest) = F (header_done c (message_size c + n * 2 ^ shift c)) rest"
proof (induction n arbitrary: c rule: write_header.induct)
  case (1 n)
  let ?s = "shift c" and ?m = "message_size c"
  have split: "n = (n div 128) * 128 + n mod 128" by simp
  have low: "(n mod 128) * 2 ^ ?s \<le> n * 2 ^ ?s" by (simp add: mult_le_mono1)
  have low31: "(n mod 128) * 2 ^ ?s < 2 ^ 31" using low "1.prems"(5) by linarith
  have lowM: "?m + (n mod 128) * 2 ^ ?s \<le> M" using low "1.prems"(6) by linarith
  show ?case
  proof (cases "drop_bit 7 n = 0")
    case True
    then have small: "n < 128" by (simp add: drop_bit_eq_div)
    have wh: "write_header n = [of_nat (n AND 0x7f)]"
      using True by (subst write_header.simps) (simp add: Let_def)
    show ?thesis
    proof -
      have "unat (of_nat (n AND 0x7f) :: 8 word) = n" using small by (simp only: unat_low7) simp
      then have "read_header_byte M c (of_nat (n AND 0x7f)) =
          Header_next (header_done c (?m + n * 2 ^ ?s))"
        unfolding header_done_def using small "1.prems"(3,4,5,6) by (rule read_header_byte_last)
      from F_step [OF "1.prems"(1,2) this] show ?thesis
        by (simp only: wh append_Cons append_Nil)
    qed
  next
    case False
    then have big: "n div 128 \<noteq> 0" by (simp add: drop_bit_eq_div)
    have wh: "write_header n = (of_nat (n AND 0x7f) OR 0x80) # write_header (n div 128)"
      using False by (subst write_header.simps) (simp add: Let_def drop_bit_eq_div)
    let ?c = "c\<lparr>message_size := ?m + (n mod 128) * 2 ^ ?s, shift := ?s + 7\<rparr>"
    have step: "read_header_byte M c (of_nat (n AND 0x7f) OR 0x80) = Header_next ?c"
    proof -
      have "n mod 128 < 128" by simp
      with unat_low7_more [of n] show ?thesis
        using "1.prems"(3,4) low31 lowM by (rule read_header_byte_more)
    qed
    have tot: "?m + (n mod 128) * 2 ^ ?s + (n div 128) * 2 ^ (?s + 7) = ?m + n * 2 ^ ?s"
    proof -
      have "(n mod 128) * 2 ^ ?s + (n div 128) * 2 ^ (?s + 7) =
          (n mod 128) * 2 ^ ?s + (n div 128) * 128 * 2 ^ ?s"
        by (simp add: power_add)
      also have "\<dots> = ((n div 128) * 128 + n mod 128) * 2 ^ ?s"
        by (simp only: distrib_right add.commute)
      also have "\<dots> = n * 2 ^ ?s" by (simp only: div_mult_mod_eq)
      finally show ?thesis by simp
    qed
    have hi: "(n div 128) * 2 ^ (?s + 7) \<le> n * 2 ^ ?s"
      using tot by linarith
    have "(2::nat) ^ (?s + 7) \<le> (n div 128) * 2 ^ (?s + 7)" using big by simp
    then have "(2::nat) ^ (?s + 7) < 2 ^ 31" using hi "1.prems"(5) by linarith
    then have "?s + 7 < 31" by (rule power_less_imp_less_exp [rotated]) simp
    then have s7: "?s + 7 < 32" by simp
    have "n mod 128 \<le> 127" by (simp add: Suc_leI flip: less_Suc_eq_le)
    then have "(n mod 128) * 2 ^ ?s \<le> 127 * 2 ^ ?s" by (rule mult_le_mono1)
    then have "?m + (n mod 128) * 2 ^ ?s < 128 * 2 ^ ?s"
      using "1.prems"(3) by linarith
    then have bound: "?m + (n mod 128) * 2 ^ ?s < 2 ^ (?s + 7)"
      by (simp add: power_add mult.commute)
    have "F ?c (write_header (drop_bit 7 n) @ rest) =
       F (header_done ?c (message_size ?c + drop_bit 7 n * 2 ^ shift ?c)) rest"
      using False "1.prems" bound s7 hi tot
      by (intro "1.IH" [OF refl refl]) (simp_all add: drop_bit_eq_div)
    then have "F ?c (write_header (n div 128) @ rest) = F (header_done c (?m + n * 2 ^ ?s)) rest"
      using tot by (simp add: drop_bit_eq_div header_done_def)
    then show ?thesis
      using F_step [OF "1.prems"(1,2) step] by (simp only: wh append_Cons)
  qed
qed

lemma update_entry_same:
  "distinct (map fst table) \<Longrightarrow> map_of table k = Some v \<Longrightarrow>
     update_entry k (\<lambda>_. v) table = table"
proof (induction table)
  case Nil
  then show ?case by (simp add: update_entry_def)
next
  case (Cons x table)
  obtain k0 v0 where x: "x = (k0, v0)" by (cases x)
  show ?case
  proof (cases "k0 = k")
    case True
    then have "k \<notin> fst ` set table" using Cons.prems(1) x by simp
    then have "update_entry k (\<lambda>_. v) table = table"
      by (induction table) (auto simp: update_entry_def)
    then show ?thesis using True x Cons.prems(2) by (simp add: update_entry_def)
  next
    case False
    then show ?thesis using x Cons by (simp add: update_entry_def)
  qed
qed

lemma update_connection_same:
  assumes "distinct (map fst (ucs_connections s))" and "find_connection s sid = Some c"
  shows "update_connection sid (\<lambda>_. c) s = s"
  using assms by (simp add: update_connection_def find_connection_def update_entry_same)

lemma update_connection_twice:
  "update_connection sid (\<lambda>_. c') (update_connection sid f s) = update_connection sid (\<lambda>_. c') s"
  by (simp add: update_connection_def update_entry_def comp_def case_prod_unfold)

lemma update_connection_emit:
  "update_connection sid f (emit e s) = emit e (update_connection sid f s)"
  by (simp add: update_connection_def emit_def)

lemma update_connection_after:
  "update_connection sid f (update_connection sid (\<lambda>_. c) s) = update_connection sid (\<lambda>_. f c) s"
  by (simp add: update_connection_def update_entry_def comp_def case_prod_unfold)

lemma read_stream_step:
  assumes "find_connection s sid = Some c" and "to_read c \<noteq> 0" and "to_read c \<le> length input"
    and "Read_completed ser parse M V now (take (to_read c) input) OK sid s = (None, s1)"
  shows "read_stream ser parse M V now sid input s =
     read_stream ser parse M V now sid (drop (to_read c) input) s1"
  using assms by (subst read_stream.simps) simp

lemma read_stream_stop:
  assumes "find_connection s sid = Some c" and "length input < to_read c"
  shows "read_stream ser parse M V now sid input s = (None, s, input)"
  using assms by (subst read_stream.simps) simp

lemma read_stream_header:
  assumes "find_connection s sid = Some c0" and "reading_header c" and "to_read c = 1"
    and "read_header_byte M c b = Header_next c'"
  shows "read_stream ser parse M V now sid (b # rest) (update_connection sid (\<lambda>_. c) s) =
     read_stream ser parse M V now sid rest (update_connection sid (\<lambda>_. c') s)"
proof -
  have at: "find_connection (update_connection sid (\<lambda>_. c) s) sid = Some c"
    using assms(1) by simp
  have "Read_completed ser parse M V now [b] OK sid (update_connection sid (\<lambda>_. c) s) =
      (None, update_connection sid (\<lambda>_. c') s)"
    using at assms(2,4) by (simp add: Read_completed_header update_connection_twice)
  then have "read_stream ser parse M V now sid (b # rest) (update_connection sid (\<lambda>_. c) s) =
      read_stream ser parse M V now sid (drop (to_read c) (b # rest))
        (update_connection sid (\<lambda>_. c') s)"
    using assms(3) by (intro read_stream_step [OF at]) simp_all
  then show ?thesis using assms(3) by simp
qed

lemma read_stream_dropped:
  assumes dist: "distinct (map fst (ucs_connections s))"
    and conn: "find_connection s sid = Some connection" and unknown: "ucs_id connection = None"
    and header: "reading_header connection" "to_read connection = 1"
      "message_size connection = 0" "shift connection = 0"
    and payload: "payload \<noteq> []" "length payload \<le> M" "length payload < 2 ^ 31"
    and msg: "parse payload = Some vsm_msg" "register_peer vsm_msg = None"
  shows "read_stream ser parse M V now sid (encode_frame payload) s =
     (None, emit (Log ''Got message for device from unregistered peer. Dropped.'') s, [])"
proof -
  let ?n = "length payload"
  let ?F = "\<lambda>c input. read_stream ser parse M V now sid input (update_connection sid (\<lambda>_. c) s)"
  let ?body = "connection\<lparr>message_size := ?n, to_read := ?n, reading_header := False\<rparr>"
  let ?log = "Log ''Got message for device from unregistered peer. Dropped.''"
  have same: "update_connection sid (\<lambda>_. connection) s = s"
    using dist conn by (rule update_connection_same)
  have "?F connection (write_header ?n @ payload) =
      ?F (header_done connection (message_size connection + ?n * 2 ^ shift connection)) payload"
    using header payload
    by (intro write_header_steps [where F = ?F and M = M] read_stream_header [OF conn]) simp_all
  moreover have "header_done connection (message_size connection + ?n * 2 ^ shift connection) =
      ?body"
    using header payload by (simp add: header_done_def)
  ultimately have hdr: "read_stream ser parse M V now sid (encode_frame payload) s =
      read_stream ser parse M V now sid payload (update_connection sid (\<lambda>_. ?body) s)"
    by (simp add: same encode_frame_def)
  have at: "find_connection (update_connection sid (\<lambda>_. ?body) s) sid = Some ?body"
    using conn by simp
  have reset: "next_header ?body = connection"
    using header by (simp add: next_header_def)
  have "Read_completed ser parse M V now payload OK sid (update_connection sid (\<lambda>_. ?body) s) =
      (None, update_connection sid next_header
               (emit ?log (update_connection sid (\<lambda>_. ?body) s)))"
  proof -
    have nb: "\<not> reading_header ?body" "ucs_id ?body = None" using unknown by simp_all
    show ?thesis
      by (rule Read_dropped [where parse = parse and buffer = payload, OF at nb msg])
  qed
  also have "update_connection sid next_header
               (emit ?log (update_connection sid (\<lambda>_. ?body) s)) = emit ?log s"
    by (simp add: update_connection_emit update_connection_after reset same)
  finally have body: "Read_completed ser parse M V now payload OK sid
      (update_connection sid (\<lambda>_. ?body) s) = (None, emit ?log s)" .
  have stop: "read_stream ser parse M V now sid [] (emit ?log s) = (None, emit ?log s, [])"
  proof (rule read_stream_stop)
    show "find_connection (emit ?log s) sid = Some connection" using conn by simp
    show "length ([] :: 8 word list) < to_read connection" using header(2) by simp
  qed
  have "read_stream ser parse M V now sid payload (update_connection sid (\<lambda>_. ?body) s) =
      read_stream ser parse M V now sid (drop (to_read ?body) payload) (emit ?log s)"
    using payload(1) body by (intro read_stream_step [OF at]) simp_all
  then show ?thesis using hdr stop by simp
qed

lemma handle_dropped:
  assumes "ucs_id connection = None" and "register_peer vsm_msg = None"
  shows "handle_message ser V now sid connection vsm_msg s =
     Continue (emit (Log ''Got message for device from unregistered peer. Dropped.'') s)"
  using assms by (simp add: handle_message_def)

text \<open>
  C7. While the peer id of a connection is unset:
  an inbound message other than register_peer is logged and dropped. Its handling (the
  branch of Read_completed for a parsed message) changes nothing but the log; and once
  the frame of the message has been read from the stream, header and body, the processor
  is in the state it had before the message with the log line added:
  \<open>last_message_time\<close> and every other field of every connection are what they were
  (the keys of \<open>ucs_connections\<close>, an \<open>unordered_map\<close>, are distinct);
  an outbound message other than register_peer is refused with an error log, nothing is
  written and nothing else changes;
  an outbound register_peer leaves with \<open>device_id = 0\<close>, and is what is written (when
  the connection is compatible).
\<close>

theorem unregistered_peer_traffic:
  assumes "find_connection s sid = Some connection" and "ucs_id connection = None"
  shows "(register_peer vsm_msg = None \<longrightarrow>
            handle_message ser V now sid connection vsm_msg s =
              Continue (emit (Log ''Got message for device from unregistered peer. Dropped.'') s)) \<and>
         (distinct (map fst (ucs_connections s)) \<and> reading_header connection \<and>
          to_read connection = 1 \<and> message_size connection = 0 \<and> shift connection = 0 \<and>
          payload \<noteq> [] \<and> length payload \<le> M \<and> length payload < 2 ^ 31 \<and>
          parse payload = Some vsm_msg \<and> register_peer vsm_msg = None \<longrightarrow>
            read_stream ser parse M V now sid (encode_frame payload) s =
              (None, emit (Log ''Got message for device from unregistered peer. Dropped.'') s,
               [])) \<and>
         (register_peer message = None \<longrightarrow>
            Send_ucs_message ser sid message s =
              (message, emit (Log ''Must register peer before sending anything else'') s)) \<and>
         (register_peer message \<noteq> None \<longrightarrow>
            device_id (fst (Send_ucs_message ser sid message s)) = 0 \<and>
            trace (snd (Send_ucs_message ser sid message s)) =
              (if is_compatible connection
               then trace s @ [Stream_write sid
                      (encode_frame (ser (fst (Send_ucs_message ser sid message s))))]
               else trace s))"
proof (intro conjI impI)
  assume "register_peer vsm_msg = None"
  with assms(2) show "handle_message ser V now sid connection vsm_msg s =
      Continue (emit (Log ''Got message for device from unregistered peer. Dropped.'') s)"
    by (rule handle_dropped)
next
  assume "distinct (map fst (ucs_connections s)) \<and> reading_header connection \<and>
          to_read connection = 1 \<and> message_size connection = 0 \<and> shift connection = 0 \<and>
          payload \<noteq> [] \<and> length payload \<le> M \<and> length payload < 2 ^ 31 \<and>
          parse payload = Some vsm_msg \<and> register_peer vsm_msg = None"
  then have dist: "distinct (map fst (ucs_connections s))"
    and header: "reading_header connection" "to_read connection = 1"
      "message_size connection = 0" "shift connection = 0"
    and payload: "payload \<noteq> []" "length payload \<le> M" "length payload < 2 ^ 31"
    and msg: "parse payload = Some vsm_msg" "register_peer vsm_msg = None"
    by simp_all
  show "read_stream ser parse M V now sid (encode_frame payload) s =
      (None, emit (Log ''Got message for device from unregistered peer. Dropped.'') s, [])"
    using dist assms header payload msg by (rule read_stream_dropped)
next
  assume "register_peer message = None"
  with assms show "Send_ucs_message ser sid message s =
      (message, emit (Log ''Must register peer before sending anything else'') s)"
    by (rule Send_refused)
next
  assume "register_peer message \<noteq> None"
  then obtain rp where rp: "register_peer message = Some rp" by auto
  show "device_id (fst (Send_ucs_message ser sid message s)) = 0"
    using assms rp by (rule Send_register_peer_unknown)
  show "trace (snd (Send_ucs_message ser sid message s)) =
      (if is_compatible connection
       then trace s @ [Stream_write sid
              (encode_frame (ser (fst (Send_ucs_message ser sid message s))))]
       else trace s)"
    using assms rp by (rule Send_register_peer_unknown)
qed

theorem unregistered_peer_traffic_witness:
  "handle_message toy_ser (3, 0) 50 1 (new_context 1 loopback 0) ping_msg
       (processor [(1, new_context 1 loopback 0)] []) =
     Continue (emit (Log ''Got message for device from unregistered peer. Dropped.'')
                 (processor [(1, new_context 1 loopback 0)] [])) \<and>
   read_stream toy_ser (\<lambda>b. Some ping_msg) 1000 (3, 0) 50 1 (encode_frame [0, 0])
       (processor [(1, new_context 1 loopback 0)] []) =
     (None, emit (Log ''Got message for device from unregistered peer. Dropped.'')
              (processor [(1, new_context 1 loopback 0)] []), []) \<and>
   Send_ucs_message toy_ser 1 ping_msg (processor [(1, new_context 1 loopback 0)] []) =
     (ping_msg, emit (Log ''Must register peer before sending anything else'')
        (processor [(1, new_context 1 loopback 0)] [])) \<and>
   device_id (fst (Send_ucs_message toy_ser 1 hello
                     (processor [(1, new_context 1 loopback 0)] []))) = 0 \<and>
   trace (snd (Send_ucs_message toy_ser 1 hello
                 (processor [(1, new_context 1 loopback 0)] []))) =
     [Stream_write 1 (encode_frame (toy_ser (hello\<lparr>device_id := 0\<rparr>)))]"
proof -
  let ?c = "new_context 1 loopback 0"
  let ?s = "processor [(1, ?c)] []"
  have h: "find_connection ?s 1 = Some ?c" "ucs_id ?c = None"
    by (simp_all add: find_connection_def processor_def new_context_def)
  have d: "distinct (map fst (ucs_connections ?s))" "is_compatible ?c"
    "length [0, 0 :: 8 word] \<le> 1000" "length [0, 0 :: 8 word] < 2 ^ 31"
    by (simp_all add: processor_def new_context_def)
  have m: "register_peer ping_msg = None" "register_peer hello \<noteq> None"
    by (simp_all add: ping_msg_def hello_def empty_message_def)
  have sent: "fst (Send_ucs_message toy_ser 1 hello ?s) = hello\<lparr>device_id := 0\<rparr>"
    using h
    by (simp add: Send_ucs_message_def write_message_def hello_def empty_message_def Let_def
        new_context_def)
  note inbound = unregistered_peer_traffic [OF h, where parse = "\<lambda>b. Some ping_msg"
      and payload = "[0, 0]" and vsm_msg = ping_msg and message = ping_msg and ser = toy_ser
      and M = 1000 and V = "(3, 0)" and now = 50]
  note outbound = unregistered_peer_traffic [OF h, where parse = "\<lambda>b. Some ping_msg"
      and payload = "[0, 0]" and vsm_msg = ping_msg and message = hello and ser = toy_ser
      and M = 1000 and V = "(3, 0)" and now = 50]
  show ?thesis
    using inbound outbound d m sent
    by (simp add: new_context_simps processor_def)
qed

end
